theory Spec2Isabelle
  imports Complex_Main "HOL-Library.AList" "HOL-Library.Sublist"
begin

section \<open>Data model of the unified check-in screen\<close>

text \<open>
  The development follows \<^verbatim>\<open>components/logging/UnifiedLogScreen.tsx\<close> and
  \<^verbatim>\<open>lib/streak.ts\<close>. A JavaScript \<^verbatim>\<open>number\<close> that holds a severity, a trigger
  value or a streak is an \<open>int\<close>; \<^verbatim>\<open>null\<close> and \<^verbatim>\<open>undefined\<close> are \<open>None\<close>.

  A JavaScript object used as a dictionary (\<^verbatim>\<open>Record<string, T>\<close>) is an association list
  in property order with distinct keys: \<^verbatim>\<open>o[k]\<close> is \<open>map_of o k\<close>, the assignment
  \<^verbatim>\<open>o[k] = v\<close> is \<open>AList.update k v o\<close> (an existing key keeps its place, a new key goes
  last), \<^verbatim>\<open>delete o[k]\<close> is \<open>AList.delete k o\<close> and \<^verbatim>\<open>Object.entries(o)\<close> is the list
  itself. The keys of the dictionaries of this screen are row identifiers (UUIDs).
\<close>

datatype Mode = Moment | Daily

type_synonym 'v js_record = "(string \<times> 'v) list"

text \<open>The entry type of \<^verbatim>\<open>triggerValues\<close>: \<^verbatim>\<open>{ value: number | null; valueText?: string | null }\<close>.\<close>

record trigger_value =
  tv_value :: "int option"
  tv_valueText :: "string option"

datatype input_type = Binary | Scale | Enum | Group

text \<open>A row of the trigger catalogue (\<^verbatim>\<open>lib/trigger-types.ts\<close>), with the fields the screen reads.\<close>

record trigger =
  t_id :: string
  t_key :: string
  t_label :: string
  t_input_type :: input_type

text \<open>A row of \<^verbatim>\<open>user_triggers\<close> joined with its trigger; the join may come back empty.\<close>

record user_trigger =
  ut_trigger_id :: string
  ut_trigger :: "trigger option"

text \<open>The local draft (\<^verbatim>\<open>type Draft\<close>); \<^verbatim>\<open>whatDoing\<close> is an optional property.\<close>

record draft =
  draft_mode :: Mode
  draft_overallSeverity :: "int option"
  draft_selectedConditions :: "string list"
  draft_conditionSeverities :: "int js_record"
  draft_whatDoing :: "string option"
  draft_notes :: string
  draft_triggerValues :: "trigger_value js_record"
  draft_updatedAt :: string

text \<open>
  The React state of the component, one field per \<^verbatim>\<open>useState\<close>, with the two values it
  reads from its surroundings: \<open>userId\<close> (from the authentication context) and \<open>today\<close>
  (memoised once per mount).
\<close>

record screen =
  userId :: "string option"
  today :: string
  mode :: Mode
  loading :: bool
  saved :: bool
  overallSeverity :: "int option"
  selectedConditions :: "string list"
  conditionSeverities :: "int js_record"
  whatDoing :: string
  enabledTriggers :: "trigger list"
  triggerValues :: "trigger_value js_record"
  triggersLoading :: bool
  "notes" :: string
  hydrated :: bool

section \<open>Form state store\<close>

definition resetForm :: "screen \<Rightarrow> screen" where
  "resetForm s = s\<lparr>overallSeverity := None, selectedConditions := [], conditionSeverities := [],
     whatDoing := [], notes := [], triggerValues := []\<rparr>"

definition toggleCondition :: "string \<Rightarrow> screen \<Rightarrow> screen" where
  "toggleCondition conditionId s =
     (if conditionId \<in> set (selectedConditions s)
      then s\<lparr>selectedConditions := filter (\<lambda>i. i \<noteq> conditionId) (selectedConditions s),
             conditionSeverities := AList.delete conditionId (conditionSeverities s)\<rparr>
      else s\<lparr>selectedConditions := selectedConditions s @ [conditionId]\<rparr>)"

definition setConditionSeverity :: "string \<Rightarrow> int \<Rightarrow> screen \<Rightarrow> screen" where
  "setConditionSeverity conditionId v s =
     s\<lparr>conditionSeverities := AList.update conditionId v (conditionSeverities s)\<rparr>"

definition setTriggerValue :: "string \<Rightarrow> int option \<Rightarrow> string option \<Rightarrow> screen \<Rightarrow> screen" where
  "setTriggerValue triggerId v vt s =
     s\<lparr>triggerValues :=
         AList.update triggerId \<lparr>tv_value = v, tv_valueText = vt\<rparr> (triggerValues s)\<rparr>"

subsection \<open>Conditional trigger visibility\<close>

definition onPeriodTrigger :: "trigger list \<Rightarrow> trigger option" where
  "onPeriodTrigger ts = find (\<lambda>t. t_key t = ''on_period'') ts"

definition showPeriodPain :: "trigger list \<Rightarrow> trigger_value js_record \<Rightarrow> bool" where
  "showPeriodPain ts tvs =
     (case onPeriodTrigger ts of
        None \<Rightarrow> False
      | Some t \<Rightarrow> (case map_of tvs (t_id t) of
                     None \<Rightarrow> False
                   | Some d \<Rightarrow> tv_value d = Some 1))"

definition filteredTriggers :: "trigger list \<Rightarrow> trigger_value js_record \<Rightarrow> trigger list" where
  "filteredTriggers ts tvs =
     filter (\<lambda>t. if t_key t = ''period_pain'' then showPeriodPain ts tvs else True) ts"

text \<open>
  The current value of the trigger keyed \<open>on_period\<close>: \<open>None\<close> when no such trigger is
  enabled, when the form holds no entry for it, or when the entry's value is null. Keys are
  unique in the catalogue; \<^verbatim>\<open>find\<close> takes the first.
\<close>

definition onPeriodValue :: "trigger list \<Rightarrow> trigger_value js_record \<Rightarrow> int option" where
  "onPeriodValue ts tvs =
     (case find (\<lambda>t. t_key t = ''on_period'') ts of
        None \<Rightarrow> None
      | Some t \<Rightarrow> (case map_of tvs (t_id t) of None \<Rightarrow> None | Some d \<Rightarrow> tv_value d))"

subsection \<open>Reloading the enabled triggers\<close>

text \<open>
  The updater passed to \<^verbatim>\<open>setTriggerValues\<close>: a fresh object that receives, in the order
  of the leaf triggers, the previous entry of each trigger that has one.
\<close>

definition pruneTriggerValues ::
  "trigger list \<Rightarrow> trigger_value js_record \<Rightarrow> trigger_value js_record" where
  "pruneTriggerValues leafTriggers prev =
     foldl (\<lambda>next t. case map_of prev (t_id t) of
                        Some d \<Rightarrow> AList.update (t_id t) d next
                      | None \<Rightarrow> next) [] leafTriggers"

text \<open>
  \<open>loadEnabledTriggers\<close> on the answer of the query (\<open>Inl\<close> the error of the store). A row
  whose joined trigger is missing makes \<^verbatim>\<open>t.input_type\<close> throw, which the \<^verbatim>\<open>catch\<close>
  turns into the error path; either way \<^verbatim>\<open>finally\<close> clears \<open>triggersLoading\<close>.
\<close>

definition loadEnabledTriggers :: "string + user_trigger list \<Rightarrow> screen \<Rightarrow> screen" where
  "loadEnabledTriggers answer s =
     (case userId s of
        None \<Rightarrow> s
      | Some u \<Rightarrow>
         (case answer of
            Inl err \<Rightarrow> s\<lparr>triggersLoading := False\<rparr>
          | Inr data \<Rightarrow>
             (if \<exists>ut \<in> set data. ut_trigger ut = None
              then s\<lparr>triggersLoading := False\<rparr>
              else
                let triggers = map (\<lambda>ut. the (ut_trigger ut)) data;
                    leafTriggers = filter (\<lambda>t. t_input_type t \<noteq> Group) triggers
                in s\<lparr>enabledTriggers := leafTriggers,
                     triggerValues := pruneTriggerValues leafTriggers (triggerValues s),
                     triggersLoading := False\<rparr>)))"

section \<open>Values computed by a save\<close>

text \<open>\<^verbatim>\<open>Math.round\<close>: the nearest integer, a tie going up.\<close>

definition math_round :: "rat \<Rightarrow> int" where
  "math_round x = \<lfloor>x + 1 / 2\<rfloor>"

definition avgConditionSeverity :: "string list \<Rightarrow> int js_record \<Rightarrow> int option" where
  "avgConditionSeverity selected severities =
     (if length selected > 0
      then Some (math_round
             (of_int (foldl (\<lambda>sum i. sum + (case map_of severities i of Some v \<Rightarrow> v | None \<Rightarrow> 0))
                        0 selected)
              / of_nat (length selected)))
      else None)"

definition finalOverallSeverity :: "screen \<Rightarrow> int option" where
  "finalOverallSeverity s =
     (case overallSeverity s of
        Some v \<Rightarrow> Some v
      | None \<Rightarrow> avgConditionSeverity (selectedConditions s) (conditionSeverities s))"

text \<open>
  The fallback as the specification words it: the rounded mean of all currently set
  per-condition severities, null when none is set.
\<close>

definition spec_finalOverallSeverity :: "screen \<Rightarrow> int option" where
  "spec_finalOverallSeverity s =
     (case overallSeverity s of
        Some v \<Rightarrow> Some v
      | None \<Rightarrow>
         (if conditionSeverities s = [] then None
          else Some (math_round
                 (of_int (sum_list (map snd (conditionSeverities s)))
                  / of_nat (length (conditionSeverities s))))))"

text \<open>An element of the \<^verbatim>\<open>triggerEntries\<close> array.\<close>

record trigger_entry =
  te_trigger_id :: string
  te_value :: int
  te_value_text :: "string option"

text \<open>\<^verbatim>\<open>x || null\<close> on an optional string: the empty string is falsy.\<close>

definition orNull :: "string option \<Rightarrow> string option" where
  "orNull x = (case x of None \<Rightarrow> None | Some t \<Rightarrow> if t = [] then None else Some t)"

definition triggerEntries :: "trigger_value js_record \<Rightarrow> trigger_entry list" where
  "triggerEntries tvs =
     map (\<lambda>(triggerId, d). \<lparr>te_trigger_id = triggerId, te_value = the (tv_value d),
                            te_value_text = orNull (tv_valueText d)\<rparr>)
       (filter (\<lambda>(_, d). tv_value d \<noteq> None) tvs)"

section \<open>The stores and their failures\<close>

text \<open>Rows of the tables the screen reads and writes, with the columns it uses.\<close>

record daily_log =
  dl_id :: string
  dl_user_id :: string
  dl_date :: string
  dl_overall_severity :: "int option"
  dl_notes :: "string option"
  dl_updated_at :: "string option"

record daily_log_condition =
  dlc_daily_log_id :: string
  dlc_user_condition_id :: string
  dlc_severity :: "int option"

record daily_log_trigger =
  dlt_daily_log_id :: string
  dlt_trigger_id :: string
  dlt_value :: "int option"
  dlt_value_text :: "string option"

record moment_log =
  ml_id :: string
  ml_user_id :: string
  ml_date :: string
  ml_overall_severity :: "int option"
  ml_activity :: "string option"
  ml_notes :: "string option"

record moment_log_condition =
  mlc_moment_log_id :: string
  mlc_user_condition_id :: string
  mlc_severity :: "int option"

record moment_log_trigger =
  mlt_moment_log_id :: string
  mlt_trigger_id :: string
  mlt_value :: "int option"
  mlt_value_text :: "string option"

text \<open>A row of \<^verbatim>\<open>users\<close>; a calendar date is the number of its day.\<close>

record user_row =
  u_id :: string
  current_streak :: "int option"
  longest_streak :: "int option"
  last_log_date :: "int option"

text \<open>The calls the screen makes to the draft cache and to the relational store.\<close>

datatype call =
    GetDraft | SetDraft | RemoveDraft
  | SelectDailyLog | UpdateDailyLog | InsertDailyLog
  | DeleteDailyLogConditions | DeleteDailyLogTriggers
  | InsertDailyLogConditions | InsertDailyLogTriggers
  | SelectDailyLogConditions | SelectDailyLogTriggers
  | InsertMomentLog | InsertMomentLogConditions | InsertMomentLogTriggers
  | SelectUser | UpdateUser

text \<open>
  A string held by \<^verbatim>\<open>AsyncStorage\<close> under a draft key: \<open>Json d\<close> is the text
  \<^verbatim>\<open>JSON.stringify\<close> makes of the draft \<open>d\<close>, which \<^verbatim>\<open>JSON.parse\<close> reads back as \<open>d\<close>;
  \<open>Unparseable t\<close> is any other text \<open>t\<close>, on which \<open>loadDraft\<close> answers null (the empty
  string by its first test, the rest by its \<^verbatim>\<open>catch\<close>).
\<close>

datatype stored = Json draft | Unparseable string

text \<open>
  Everything outside the component: the draft cache (\<^verbatim>\<open>AsyncStorage\<close>), the tables, and
  the calls received so far, in order.
\<close>

record world =
  asyncStorage :: "string \<rightharpoonup> stored"
  daily_logs :: "daily_log list"
  daily_log_conditions :: "daily_log_condition list"
  daily_log_triggers :: "daily_log_trigger list"
  moment_logs :: "moment_log list"
  moment_log_conditions :: "moment_log_condition list"
  moment_log_triggers :: "moment_log_trigger list"
  users :: "user_row list"
  requests :: "call list"

text \<open>
  What the code cannot decide: \<open>faults\<close> gives the error with which a call is rejected
  (the network, the row-level security check of a written row, a constraint such as the
  uniqueness of a log's condition), \<open>None\<close> when it goes through; \<open>newId\<close> is
  the identifier the database gives to an inserted log; \<open>nowIso\<close> and \<open>utcDay\<close> are the
  clock.
\<close>

record env =
  faults :: "call \<Rightarrow> string option"
  newId :: string
  nowIso :: string
  utcDay :: int

text \<open>
  An asynchronous computation that may throw: from the world to its result (\<open>Inl\<close> the
  error thrown) and the world it leaves.
\<close>

type_synonym 'a io = "world \<Rightarrow> (string + 'a) \<times> world"

definition io_return :: "'a \<Rightarrow> 'a io" where
  "io_return a w = (Inr a, w)"

definition io_bind :: "'a io \<Rightarrow> ('a \<Rightarrow> 'b io) \<Rightarrow> 'b io" where
  "io_bind m k w = (case m w of (Inl e, w') \<Rightarrow> (Inl e, w') | (Inr a, w') \<Rightarrow> k a w')"

text \<open>
  One awaited call whose error is thrown: the call is recorded; a rejected call changes
  nothing else.
\<close>

definition request :: "env \<Rightarrow> call \<Rightarrow> 'a io \<Rightarrow> 'a io" where
  "request E c op w =
     (let w1 = w\<lparr>requests := requests w @ [c]\<rparr>
      in case faults E c of Some e \<Rightarrow> (Inl e, w1) | None \<Rightarrow> op w1)"

text \<open>\<^verbatim>\<open>.maybeSingle()\<close>: no row is null, one row is the row, several rows are an error.\<close>

definition maybeSingle :: "'r list \<Rightarrow> string + 'r option" where
  "maybeSingle rows =
     (case rows of
        [] \<Rightarrow> Inr None
      | [r] \<Rightarrow> Inr (Some r)
      | _ \<Rightarrow> Inl ''JSON object requested, multiple (or no) rows returned'')"

section \<open>The draft cache\<close>

definition modeName :: "Mode \<Rightarrow> string" where
  "modeName m = (case m of Moment \<Rightarrow> ''moment'' | Daily \<Rightarrow> ''daily'')"

definition draftKey :: "string option \<Rightarrow> string \<Rightarrow> Mode \<Rightarrow> string" where
  "draftKey uid day m =
     ''unifiedLogDraft:'' @ (case uid of Some u \<Rightarrow> u | None \<Rightarrow> ''anon'') @ '':'' @ day
       @ '':'' @ modeName m"

definition draftOf :: "env \<Rightarrow> screen \<Rightarrow> draft" where
  "draftOf E s =
     \<lparr>draft_mode = mode s,
      draft_overallSeverity = overallSeverity s,
      draft_selectedConditions = selectedConditions s,
      draft_conditionSeverities = conditionSeverities s,
      draft_whatDoing = (if mode s = Moment then Some (whatDoing s) else None),
      draft_notes = notes s,
      draft_triggerValues = triggerValues s,
      draft_updatedAt = nowIso E\<rparr>"

definition saveDraft :: "env \<Rightarrow> screen \<Rightarrow> unit io" where
  "saveDraft E s =
     (case userId s of
        None \<Rightarrow> io_return ()
      | Some u \<Rightarrow>
         request E SetDraft
           (\<lambda>w. (Inr (), w\<lparr>asyncStorage :=
                    (asyncStorage w)(draftKey (userId s) (today s) (mode s)
                       \<mapsto> Json (draftOf E s))\<rparr>)))"

definition loadDraft :: "env \<Rightarrow> string option \<Rightarrow> string \<Rightarrow> draft option io" where
  "loadDraft E uid k =
     (case uid of
        None \<Rightarrow> io_return None
      | Some u \<Rightarrow>
         io_bind (request E GetDraft (\<lambda>w. (Inr (asyncStorage w k), w)))
           (\<lambda>raw. io_return (case raw of
                               None \<Rightarrow> None
                             | Some (Unparseable t) \<Rightarrow> None
                             | Some (Json d) \<Rightarrow> Some d)))"

definition clearDraft :: "env \<Rightarrow> screen \<Rightarrow> unit io" where
  "clearDraft E s =
     (case userId s of
        None \<Rightarrow> io_return ()
      | Some u \<Rightarrow>
         request E RemoveDraft
           (\<lambda>w. (Inr (), w\<lparr>asyncStorage :=
                    (asyncStorage w)(draftKey (userId s) (today s) (mode s) := None)\<rparr>)))"

section \<open>Streak service\<close>

text \<open>\<^verbatim>\<open>x || d\<close> on an optional number: null and \<open>0\<close> are falsy.\<close>

definition orElse :: "int option \<Rightarrow> int \<Rightarrow> int" where
  "orElse x d = (case x of None \<Rightarrow> d | Some v \<Rightarrow> if v = 0 then d else v)"

text \<open>
  \<open>updateStreak\<close> of \<^verbatim>\<open>lib/streak.ts\<close>. Both store errors are thrown to the caller.
\<close>

definition updateStreak :: "env \<Rightarrow> string \<Rightarrow> int option \<Rightarrow> (int \<times> int) io" where
  "updateStreak E uid logDate =
     (let dateToUse = (case logDate of Some d \<Rightarrow> d | None \<Rightarrow> utcDay E)
      in io_bind
           (request E SelectUser (\<lambda>w. (maybeSingle (filter (\<lambda>r. u_id r = uid) (users w)), w)))
           (\<lambda>user.
              let lastLog = (case user of None \<Rightarrow> None | Some r \<Rightarrow> last_log_date r);
                  cur = (case user of None \<Rightarrow> None | Some r \<Rightarrow> current_streak r);
                  longest = (case user of None \<Rightarrow> None | Some r \<Rightarrow> longest_streak r);
                  newCurrentStreak =
                    (case lastLog of
                       None \<Rightarrow> 1
                     | Some l \<Rightarrow>
                        if l = dateToUse - 1 then orElse cur 0 + 1
                        else if l \<noteq> dateToUse then 1
                        else orElse cur 1);
                  newLongestStreak = max newCurrentStreak (orElse longest 0)
              in io_bind
                   (request E UpdateUser
                      (\<lambda>w. (Inr (),
                         w\<lparr>users := map (\<lambda>r. if u_id r = uid
                                    then r\<lparr>current_streak := Some newCurrentStreak,
                                           longest_streak := Some newLongestStreak,
                                           last_log_date := Some dateToUse\<rparr>
                                    else r) (users w)\<rparr>)))
                   (\<lambda>_. io_return (newCurrentStreak, newLongestStreak))))"

section \<open>Persistence controller\<close>

text \<open>\<^verbatim>\<open>x || null\<close> on a string of the form.\<close>

definition textOrNull :: "string \<Rightarrow> string option" where
  "textOrNull t = (if t = [] then None else Some t)"

definition selectDailyLog :: "env \<Rightarrow> string \<Rightarrow> string \<Rightarrow> daily_log option io" where
  "selectDailyLog E uid day =
     request E SelectDailyLog
       (\<lambda>w. (maybeSingle (filter (\<lambda>r. dl_user_id r = uid \<and> dl_date r = day) (daily_logs w)), w))"

text \<open>The update of a daily log: on the rows with the given identifier.\<close>

definition updatedDailyLog :: "env \<Rightarrow> string \<Rightarrow> screen \<Rightarrow> daily_log \<Rightarrow> daily_log" where
  "updatedDailyLog E logId s r =
     (if dl_id r = logId
      then r\<lparr>dl_overall_severity := finalOverallSeverity s,
             dl_notes := textOrNull (notes s),
             dl_updated_at := Some (nowIso E)\<rparr>
      else r)"

definition updateDailyLog :: "env \<Rightarrow> string \<Rightarrow> screen \<Rightarrow> unit io" where
  "updateDailyLog E logId s =
     request E UpdateDailyLog
       (\<lambda>w. (Inr (), w\<lparr>daily_logs := map (updatedDailyLog E logId s) (daily_logs w)\<rparr>))"

text \<open>
  The two deletions of a log's child rows (\<^verbatim>\<open>UnifiedLogScreen.tsx\<close>, l.437-447) run as the
  signed-in user, under the row-level security of the schema. The migration that creates
  \<^verbatim>\<open>daily_log_conditions\<close> (\<^verbatim>\<open>20251225055108_010_seed_core_triggers.sql\<close>, l.302-352) enables
  row-level security on it with a policy for SELECT, one for INSERT and one for UPDATE, and
  no migration gives it a policy for DELETE: the rows of the table are not visible to a
  DELETE, which therefore removes none of them and reports no error.
  \<^verbatim>\<open>daily_log_triggers\<close> has a DELETE policy for the rows of the user's own logs, as have
  \<^verbatim>\<open>moment_log_conditions\<close> and \<^verbatim>\<open>moment_log_triggers\<close>, so there the deletion removes
  the rows of the log.
\<close>

definition deleteDailyLogConditions :: "env \<Rightarrow> string \<Rightarrow> unit io" where
  "deleteDailyLogConditions E logId =
     request E DeleteDailyLogConditions (\<lambda>w. (Inr (), w))"

definition deleteDailyLogTriggers :: "env \<Rightarrow> string \<Rightarrow> unit io" where
  "deleteDailyLogTriggers E logId =
     request E DeleteDailyLogTriggers
       (\<lambda>w. (Inr (),
          w\<lparr>daily_log_triggers :=
              filter (\<lambda>r. dlt_daily_log_id r \<noteq> logId) (daily_log_triggers w)\<rparr>))"

definition insertDailyLog :: "env \<Rightarrow> string \<Rightarrow> screen \<Rightarrow> daily_log io" where
  "insertDailyLog E uid s =
     request E InsertDailyLog
       (\<lambda>w. let created = \<lparr>dl_id = newId E, dl_user_id = uid, dl_date = today s,
                            dl_overall_severity = finalOverallSeverity s,
                            dl_notes = textOrNull (notes s), dl_updated_at = None\<rparr>
            in (Inr created, w\<lparr>daily_logs := daily_logs w @ [created]\<rparr>))"

text \<open>
  The rows a daily save inserts for a selected condition and for a trigger entry. An
  insertion that breaks a constraint of the schema (a condition the log already has, by the
  uniqueness of \<^verbatim>\<open>(daily_log_id, user_condition_id)\<close>) is rejected by the store: it is one of
  the rejections of \<open>faults\<close>.
\<close>

definition dailyConditionRow :: "string \<Rightarrow> screen \<Rightarrow> string \<Rightarrow> daily_log_condition" where
  "dailyConditionRow logId s user_condition_id =
     \<lparr>dlc_daily_log_id = logId, dlc_user_condition_id = user_condition_id,
      dlc_severity = map_of (conditionSeverities s) user_condition_id\<rparr>"

definition dailyTriggerRow :: "string \<Rightarrow> trigger_entry \<Rightarrow> daily_log_trigger" where
  "dailyTriggerRow logId t =
     \<lparr>dlt_daily_log_id = logId, dlt_trigger_id = te_trigger_id t,
      dlt_value = Some (te_value t), dlt_value_text = te_value_text t\<rparr>"

definition insertDailyLogConditions :: "env \<Rightarrow> string \<Rightarrow> screen \<Rightarrow> unit io" where
  "insertDailyLogConditions E logId s =
     request E InsertDailyLogConditions
       (\<lambda>w. (Inr (),
          w\<lparr>daily_log_conditions := daily_log_conditions w @
              map (dailyConditionRow logId s) (selectedConditions s)\<rparr>))"

definition insertDailyLogTriggers :: "env \<Rightarrow> string \<Rightarrow> trigger_entry list \<Rightarrow> unit io" where
  "insertDailyLogTriggers E logId entries =
     request E InsertDailyLogTriggers
       (\<lambda>w. (Inr (),
          w\<lparr>daily_log_triggers := daily_log_triggers w @
              map (dailyTriggerRow logId) entries\<rparr>))"

definition insertMomentLog :: "env \<Rightarrow> string \<Rightarrow> screen \<Rightarrow> moment_log io" where
  "insertMomentLog E uid s =
     request E InsertMomentLog
       (\<lambda>w. let created = \<lparr>ml_id = newId E, ml_user_id = uid, ml_date = today s,
                            ml_overall_severity = finalOverallSeverity s,
                            ml_activity = textOrNull (whatDoing s),
                            ml_notes = textOrNull (notes s)\<rparr>
            in (Inr created, w\<lparr>moment_logs := moment_logs w @ [created]\<rparr>))"

definition insertMomentLogConditions :: "env \<Rightarrow> string \<Rightarrow> screen \<Rightarrow> unit io" where
  "insertMomentLogConditions E logId s =
     request E InsertMomentLogConditions
       (\<lambda>w. (Inr (),
          w\<lparr>moment_log_conditions := moment_log_conditions w @
              map (\<lambda>user_condition_id.
                     \<lparr>mlc_moment_log_id = logId, mlc_user_condition_id = user_condition_id,
                      mlc_severity = map_of (conditionSeverities s) user_condition_id\<rparr>)
                (selectedConditions s)\<rparr>))"

definition insertMomentLogTriggers :: "env \<Rightarrow> string \<Rightarrow> trigger_entry list \<Rightarrow> unit io" where
  "insertMomentLogTriggers E logId entries =
     request E InsertMomentLogTriggers
       (\<lambda>w. (Inr (),
          w\<lparr>moment_log_triggers := moment_log_triggers w @
              map (\<lambda>t. \<lparr>mlt_moment_log_id = logId, mlt_trigger_id = te_trigger_id t,
                        mlt_value = Some (te_value t), mlt_value_text = te_value_text t\<rparr>)
                entries\<rparr>))"

text \<open>
  The \<^verbatim>\<open>try\<close> block of \<open>handleSave\<close> for a signed-in user: every awaited call in the
  order of the source, a thrown error ending the block.
\<close>

definition saveDaily :: "env \<Rightarrow> string \<Rightarrow> screen \<Rightarrow> unit io" where
  "saveDaily E uid s =
     io_bind (selectDailyLog E uid (today s)) (\<lambda>existing.
     io_bind
       (case existing of
          Some ex \<Rightarrow>
            io_bind (updateDailyLog E (dl_id ex) s) (\<lambda>_.
            io_bind (deleteDailyLogConditions E (dl_id ex)) (\<lambda>_.
            io_bind (deleteDailyLogTriggers E (dl_id ex)) (\<lambda>_.
            io_return (dl_id ex))))
        | None \<Rightarrow>
            io_bind (insertDailyLog E uid s) (\<lambda>created. io_return (dl_id created)))
       (\<lambda>dailyLogId.
     io_bind
       (if length (selectedConditions s) > 0
        then insertDailyLogConditions E dailyLogId s else io_return ()) (\<lambda>_.
     io_bind
       (if length (triggerEntries (triggerValues s)) > 0
        then insertDailyLogTriggers E dailyLogId (triggerEntries (triggerValues s))
        else io_return ()) (\<lambda>_.
     io_bind (updateStreak E uid None) (\<lambda>_.
     clearDraft E s)))))"

definition saveMoment :: "env \<Rightarrow> string \<Rightarrow> screen \<Rightarrow> unit io" where
  "saveMoment E uid s =
     io_bind (insertMomentLog E uid s) (\<lambda>moment.
     io_bind
       (if length (selectedConditions s) > 0
        then insertMomentLogConditions E (ml_id moment) s else io_return ()) (\<lambda>_.
     io_bind
       (if length (triggerEntries (triggerValues s)) > 0
        then insertMomentLogTriggers E (ml_id moment) (triggerEntries (triggerValues s))
        else io_return ()) (\<lambda>_.
     io_bind (updateStreak E uid None) (\<lambda>_.
     clearDraft E s))))"

text \<open>
  What a press of Save leaves behind: the component state, the world, the alert shown (if
  any) and the lines written with \<^verbatim>\<open>console.error\<close>.
\<close>

record outcome =
  o_screen :: screen
  o_world :: world
  o_alert :: "(string \<times> string) option"
  o_console :: "string list"

definition handleSave :: "env \<Rightarrow> screen \<Rightarrow> world \<Rightarrow> outcome" where
  "handleSave E s w =
     (case userId s of
        None \<Rightarrow> \<lparr>o_screen = s, o_world = w, o_alert = None, o_console = []\<rparr>
      | Some uid \<Rightarrow>
         (case (if mode s = Daily then saveDaily E uid s else saveMoment E uid s) w of
            (Inr _, w') \<Rightarrow>
              \<lparr>o_screen = (resetForm s)\<lparr>saved := True, loading := False\<rparr>,
               o_world = w', o_alert = None, o_console = []\<rparr>
          | (Inl e, w') \<Rightarrow>
              \<lparr>o_screen = s\<lparr>loading := False\<rparr>,
               o_world = w',
               o_alert = Some (''Save failed'', if e = [] then ''Check console logs.'' else e),
               o_console = [''[UnifiedLogScreen] save failed'']\<rparr>))"

text \<open>The calls a computation issued, given the world before and after it.\<close>

definition issued :: "world \<Rightarrow> world \<Rightarrow> call list" where
  "issued w w' = drop (length (requests w)) (requests w')"

section \<open>Hydration resolver\<close>

text \<open>
  \<open>hydrate\<close> is an asynchronous function: it runs up to an \<^verbatim>\<open>await\<close>, and resumes when
  the awaited call answers. In between, other handlers of the component run, among them
  the cleanup of the effect, which sets the variable \<open>cancelled\<close> of this pass. A pass is
  therefore its closure (the \<open>userId\<close>, \<open>today\<close> and \<open>mode\<close> of the render that started
  it), its \<open>cancelled\<close> variable and the \<^verbatim>\<open>await\<close> it is suspended at. Each function below
  is the code between two suspension points; it reads \<open>cancelled\<close> as it is at that moment
  and writes to the one state of the component.
\<close>

datatype hydrate_await =
  AwaitDraft | AwaitDaily | AwaitConditions string | AwaitTriggers string | Finished

record pass =
  p_userId :: "string option"
  p_today :: string
  p_mode :: Mode
  p_cancelled :: bool
  p_at :: hydrate_await

text \<open>The last statement of \<open>hydrate\<close>: \<^verbatim>\<open>if (!cancelled) setHydrated(true)\<close>.\<close>

definition hydrate_finish :: "bool \<Rightarrow> screen \<Rightarrow> screen" where
  "hydrate_finish cancelled s = (if \<not> cancelled then s\<lparr>hydrated := True\<rparr> else s)"

text \<open>From the call of \<open>hydrate\<close> to \<^verbatim>\<open>await loadDraft()\<close>.\<close>

definition hydrate_start :: "screen \<Rightarrow> hydrate_await \<times> screen" where
  "hydrate_start s =
     (case userId s of
        None \<Rightarrow> (Finished, s)
      | Some u \<Rightarrow> (AwaitDraft, resetForm (s\<lparr>hydrated := False\<rparr>)))"

text \<open>From the answer of \<open>loadDraft\<close> to the query of \<^verbatim>\<open>daily_logs\<close>, or to the end.\<close>

definition hydrate_afterDraft ::
  "Mode \<Rightarrow> bool \<Rightarrow> draft option \<Rightarrow> screen \<Rightarrow> hydrate_await \<times> screen" where
  "hydrate_afterDraft m cancelled loaded s =
     (if \<not> cancelled \<and> loaded \<noteq> None
      then
        (let d = the loaded
         in (Finished,
             s\<lparr>overallSeverity := draft_overallSeverity d,
               selectedConditions := draft_selectedConditions d,
               conditionSeverities := draft_conditionSeverities d,
               whatDoing := (if draft_mode d = Moment
                             then (case draft_whatDoing d of Some t \<Rightarrow> t | None \<Rightarrow> [])
                             else []),
               notes := draft_notes d,
               triggerValues := draft_triggerValues d,
               hydrated := True\<rparr>))
      else if m = Daily then (AwaitDaily, s\<lparr>whatDoing := []\<rparr>)
      else (Finished, hydrate_finish cancelled s))"

text \<open>
  From the answer of the \<^verbatim>\<open>daily_logs\<close> query to the query of the log's conditions. An
  error is thrown to the \<^verbatim>\<open>catch\<close>, which logs it.
\<close>

definition hydrate_afterDaily ::
  "bool \<Rightarrow> string + daily_log option \<Rightarrow> screen \<Rightarrow> hydrate_await \<times> screen" where
  "hydrate_afterDaily cancelled answer s =
     (case answer of
        Inl dailyErr \<Rightarrow> (Finished, hydrate_finish cancelled s)
      | Inr None \<Rightarrow> (Finished, hydrate_finish cancelled s)
      | Inr (Some daily) \<Rightarrow>
         (if \<not> cancelled \<and> dl_id daily \<noteq> []
          then (AwaitConditions (dl_id daily),
                s\<lparr>overallSeverity := dl_overall_severity daily,
                  notes := (case dl_notes daily of Some t \<Rightarrow> t | None \<Rightarrow> [])\<rparr>)
          else (Finished, hydrate_finish cancelled s)))"

text \<open>From the answer of the conditions query to the query of the log's triggers.\<close>

definition hydrate_afterConditions ::
  "bool \<Rightarrow> string \<Rightarrow> string + daily_log_condition list \<Rightarrow> screen \<Rightarrow> hydrate_await \<times> screen"
  where
  "hydrate_afterConditions cancelled logId answer s =
     (case answer of
        Inl dcErr \<Rightarrow> (Finished, hydrate_finish cancelled s)
      | Inr dc \<Rightarrow>
         (let selected = map dlc_user_condition_id dc;
              severities =
                foldl (\<lambda>acc row. case dlc_severity row of
                                    Some v \<Rightarrow> AList.update (dlc_user_condition_id row) v acc
                                  | None \<Rightarrow> acc) [] dc
          in (AwaitTriggers logId,
              s\<lparr>selectedConditions := selected, conditionSeverities := severities\<rparr>)))"

text \<open>From the answer of the triggers query to the end of \<open>hydrate\<close>.\<close>

definition hydrate_afterTriggers ::
  "bool \<Rightarrow> string + daily_log_trigger list \<Rightarrow> screen \<Rightarrow> hydrate_await \<times> screen" where
  "hydrate_afterTriggers cancelled answer s =
     (case answer of
        Inl dtErr \<Rightarrow> (Finished, hydrate_finish cancelled s)
      | Inr dt \<Rightarrow>
         (let nextTV =
                foldl (\<lambda>acc row. AList.update (dlt_trigger_id row)
                                    \<lparr>tv_value = dlt_value row,
                                     tv_valueText = dlt_value_text row\<rparr> acc) [] dt
          in (Finished, hydrate_finish cancelled (s\<lparr>triggerValues := nextTV\<rparr>))))"

text \<open>The two child queries of hydration.\<close>

definition selectDailyLogConditions :: "env \<Rightarrow> string \<Rightarrow> world \<Rightarrow> (string + daily_log_condition list) \<times> world" where
  "selectDailyLogConditions E logId =
     request E SelectDailyLogConditions
       (\<lambda>w. (Inr (filter (\<lambda>r. dlc_daily_log_id r = logId) (daily_log_conditions w)), w))"

definition selectDailyLogTriggers :: "env \<Rightarrow> string \<Rightarrow> world \<Rightarrow> (string + daily_log_trigger list) \<times> world" where
  "selectDailyLogTriggers E logId =
     request E SelectDailyLogTriggers
       (\<lambda>w. (Inr (filter (\<lambda>r. dlt_daily_log_id r = logId) (daily_log_triggers w)), w))"

text \<open>
  The effect that starts a pass, and its cleanup. The closure of the pass is taken from
  the state the effect was rendered with.
\<close>

definition hydrateEffect :: "screen \<Rightarrow> pass \<times> screen" where
  "hydrateEffect s =
     (case hydrate_start s of
        (a, s') \<Rightarrow>
          (\<lparr>p_userId = userId s, p_today = today s, p_mode = mode s,
            p_cancelled = False, p_at = a\<rparr>, s'))"

definition hydrateCleanup :: "pass \<Rightarrow> pass" where
  "hydrateCleanup p = p\<lparr>p_cancelled := True\<rparr>"

text \<open>
  A suspended pass resumes: the awaited call is answered by the world, and the code up to
  the next suspension point runs on the current state. A rejected read of the cache is not
  caught by \<open>hydrate\<close>: the pass ends there.
\<close>

definition hydrate_resume :: "env \<Rightarrow> pass \<Rightarrow> screen \<Rightarrow> world \<Rightarrow> pass \<times> screen \<times> world" where
  "hydrate_resume E p s w =
     (case p_at p of
        AwaitDraft \<Rightarrow>
          (case loadDraft E (p_userId p) (draftKey (p_userId p) (p_today p) (p_mode p)) w of
             (Inl e, w') \<Rightarrow> (p\<lparr>p_at := Finished\<rparr>, s, w')
           | (Inr loaded, w') \<Rightarrow>
               (case hydrate_afterDraft (p_mode p) (p_cancelled p) loaded s of
                  (a, s') \<Rightarrow> (p\<lparr>p_at := a\<rparr>, s', w')))
      | AwaitDaily \<Rightarrow>
          (case selectDailyLog E (case p_userId p of Some u \<Rightarrow> u | None \<Rightarrow> []) (p_today p) w of
             (answer, w') \<Rightarrow>
               (case hydrate_afterDaily (p_cancelled p) answer s of
                  (a, s') \<Rightarrow> (p\<lparr>p_at := a\<rparr>, s', w')))
      | AwaitConditions logId \<Rightarrow>
          (case selectDailyLogConditions E logId w of
             (answer, w') \<Rightarrow>
               (case hydrate_afterConditions (p_cancelled p) logId answer s of
                  (a, s') \<Rightarrow> (p\<lparr>p_at := a\<rparr>, s', w')))
      | AwaitTriggers logId \<Rightarrow>
          (case selectDailyLogTriggers E logId w of
             (answer, w') \<Rightarrow>
               (case hydrate_afterTriggers (p_cancelled p) answer s of
                  (a, s') \<Rightarrow> (p\<lparr>p_at := a\<rparr>, s', w')))
      | Finished \<Rightarrow> (p, s, w))"

text \<open>
  A whole pass that nothing interrupts: the effect, then one resumption for each of the
  at most four awaited calls.
\<close>

fun hydrate_resumes :: "nat \<Rightarrow> env \<Rightarrow> pass \<Rightarrow> screen \<Rightarrow> world \<Rightarrow> pass \<times> screen \<times> world" where
  "hydrate_resumes 0 E p s w = (p, s, w)"
| "hydrate_resumes (Suc n) E p s w =
     (case hydrate_resume E p s w of (p', s', w') \<Rightarrow> hydrate_resumes n E p' s' w')"

definition hydrate :: "env \<Rightarrow> screen \<Rightarrow> world \<Rightarrow> pass \<times> screen \<times> world" where
  "hydrate E s w = (case hydrateEffect s of (p, s') \<Rightarrow> hydrate_resumes 4 E p s' w)"

section \<open>Handlers and the autosave effect\<close>

text \<open>The two pills of the mode toggle.\<close>

definition pressMode :: "Mode \<Rightarrow> screen \<Rightarrow> screen" where
  "pressMode m s =
     (case m of
        Moment \<Rightarrow> s\<lparr>hydrated := False, mode := Moment\<rparr>
      | Daily \<Rightarrow> s\<lparr>hydrated := False, whatDoing := [], mode := Daily\<rparr>)"

text \<open>The button of the saved overlay: \<^verbatim>\<open>setSaved(false)\<close>, then the router is told to go.\<close>

definition pressBackToDashboard :: "screen \<Rightarrow> screen" where
  "pressBackToDashboard s = s\<lparr>saved := False\<rparr>"

text \<open>
  The autosave effect. React runs its body after a render in which one of its dependencies
  differs from the previous render; the dependencies that are state are listed in
  \<open>autosaveDeps\<close>. A failed write is logged and otherwise ignored.
\<close>

definition autosaveDeps ::
  "screen \<Rightarrow> string option \<times> bool \<times> bool \<times> Mode \<times> int option \<times> string list \<times> int js_record
     \<times> string \<times> string \<times> trigger_value js_record" where
  "autosaveDeps s =
     (userId s, hydrated s, saved s, mode s, overallSeverity s, selectedConditions s,
      conditionSeverities s, whatDoing s, notes s, triggerValues s)"

definition autosaveEffect :: "env \<Rightarrow> screen \<Rightarrow> world \<Rightarrow> world" where
  "autosaveEffect E s w =
     (if userId s = None then w
      else if \<not> hydrated s then w
      else if saved s then w
      else snd (saveDraft E s w))"

definition commitAutosave :: "env \<Rightarrow> screen \<Rightarrow> screen \<Rightarrow> world \<Rightarrow> world" where
  "commitAutosave E previous s w =
     (if autosaveDeps s \<noteq> autosaveDeps previous then autosaveEffect E s w else w)"

section \<open>Auxiliary notions and sample data\<close>

text \<open>The severity a selected condition contributes to the average: \<^verbatim>\<open>conditionSeverities[id] || 0\<close>.\<close>

definition severityOrZero :: "int js_record \<Rightarrow> string \<Rightarrow> int" where
  "severityOrZero severities i = (case map_of severities i of Some v \<Rightarrow> v | None \<Rightarrow> 0)"

text \<open>
  A user \<open>u1\<close> on 2025-03-01 who has already logged that day: the daily log \<open>log-1\<close> with one
  condition and one trigger. \<open>ex_screen\<close> is the component as it mounts in daily mode,
  \<open>ex_edited\<close> the hydrated form after some edits (another condition and another trigger
  than the persisted ones), \<open>ex_drafted\<close> the world once autosave has written that form to
  the cache.
\<close>

definition ex_env :: env where
  "ex_env = \<lparr>faults = (\<lambda>c. None), newId = ''log-2'', nowIso = ''2025-03-01T10:00:00.000Z'',
             utcDay = 20148\<rparr>"

definition ex_screen :: screen where
  "ex_screen =
     \<lparr>userId = Some ''u1'', today = ''2025-03-01'', mode = Daily, loading = False, saved = False,
      overallSeverity = None, selectedConditions = [], conditionSeverities = [], whatDoing = [],
      enabledTriggers = [], triggerValues = [], triggersLoading = False, notes = [],
      hydrated = False\<rparr>"

definition ex_world :: world where
  "ex_world =
     \<lparr>asyncStorage = Map.empty,
      daily_logs = [\<lparr>dl_id = ''log-1'', dl_user_id = ''u1'', dl_date = ''2025-03-01'',
                     dl_overall_severity = Some 5, dl_notes = Some ''rest day'',
                     dl_updated_at = None\<rparr>],
      daily_log_conditions = [\<lparr>dlc_daily_log_id = ''log-1'', dlc_user_condition_id = ''c1'',
                               dlc_severity = Some 6\<rparr>],
      daily_log_triggers = [\<lparr>dlt_daily_log_id = ''log-1'', dlt_trigger_id = ''t1'',
                             dlt_value = Some 1, dlt_value_text = Some ''Yes''\<rparr>],
      moment_logs = [], moment_log_conditions = [], moment_log_triggers = [],
      users = [\<lparr>u_id = ''u1'', current_streak = Some 2, longest_streak = Some 4,
                last_log_date = Some 20147\<rparr>],
      requests = []\<rparr>"

definition ex_draft :: draft where
  "ex_draft =
     \<lparr>draft_mode = Daily, draft_overallSeverity = Some 8, draft_selectedConditions = [''c2''],
      draft_conditionSeverities = [(''c2'', 6)], draft_whatDoing = None,
      draft_notes = ''draft note'',
      draft_triggerValues = [(''t2'', \<lparr>tv_value = Some 0, tv_valueText = Some ''4 hours''\<rparr>)],
      draft_updatedAt = ''2025-03-01T09:00:00.000Z''\<rparr>"

definition ex_edited :: screen where
  "ex_edited = ex_screen\<lparr>overallSeverity := Some 8, selectedConditions := [''c2''],
     conditionSeverities := [(''c2'', 6)],
     triggerValues := [(''t2'', \<lparr>tv_value = Some 0, tv_valueText = Some ''4 hours''\<rparr>)],
     hydrated := True\<rparr>"

definition ex_drafted :: world where
  "ex_drafted = snd (saveDraft ex_env ex_edited ex_world)"

text \<open>A form with two selected conditions of which only the first has a severity.\<close>

definition ex_unset :: screen where
  "ex_unset = ex_screen\<lparr>selectedConditions := [''c1'', ''c2''],
     conditionSeverities := [(''c1'', 6)], hydrated := True\<rparr>"

text \<open>
  A mode switch during hydration. The component mounts in daily mode with no draft; its
  pass reads the cache, then today's log, and is suspended at the query of the log's
  conditions when the user presses the pill of the other mode: the handler runs, the
  cleanup of the effect cancels the pass, and the effect starts a new pass for the new
  mode, which leaves the state \<open>s4\<close>. Then the two pending queries of the cancelled pass are
  answered, and after them the cache read of the new pass. The result is \<open>s4\<close>, the two
  passes as they end, and the state and the world at the end.
\<close>

definition stale_pass_run :: "screen \<times> (pass \<times> pass) \<times> screen \<times> world" where
  "stale_pass_run =
     (case hydrateEffect ex_screen of (p0, s1) \<Rightarrow>
      case hydrate_resume ex_env p0 s1 ex_world of (p1, s2, w1) \<Rightarrow>
      case hydrate_resume ex_env p1 s2 w1 of (p2, s3, w2) \<Rightarrow>
      case hydrateEffect (pressMode Moment s3) of (q0, s4) \<Rightarrow>
      case hydrate_resume ex_env (hydrateCleanup p2) s4 w2 of (p3, s5, w3) \<Rightarrow>
      case hydrate_resume ex_env p3 s5 w3 of (p4, s6, w4) \<Rightarrow>
      case hydrate_resume ex_env q0 s6 w4 of (q1, s7, w5) \<Rightarrow>
        (s4, (p4, q1), s7, w5))"

text \<open>
  A save followed by the button of the saved overlay: the outcome of the save, the state
  after the button, the world after the render that follows, and what a later mount of the
  screen hydrates from that world.
\<close>

definition save_then_back :: "outcome \<times> screen \<times> world \<times> screen" where
  "save_then_back =
     (let o1 = handleSave ex_env ex_edited ex_drafted;
          s2 = pressBackToDashboard (o_screen o1);
          w2 = commitAutosave ex_env (o_screen o1) s2 (o_world o1)
      in (o1, s2, w2, fst (snd (hydrate ex_env ex_screen w2))))"

section \<open>Notions used to state and prove the properties of a save\<close>

text \<open>The environment in which no call is rejected.\<close>

definition noFaults :: "env \<Rightarrow> env" where
  "noFaults E = E\<lparr>faults := (\<lambda>c. None)\<rparr>"

text \<open>
  The store writes of a save: \<open>saveDaily\<close> and \<open>saveMoment\<close> up to, and without, the
  streak update.
\<close>

definition persistDaily :: "env \<Rightarrow> string \<Rightarrow> screen \<Rightarrow> unit io" where
  "persistDaily E uid s =
     io_bind (selectDailyLog E uid (today s)) (\<lambda>existing.
     io_bind
       (case existing of
          Some ex \<Rightarrow>
            io_bind (updateDailyLog E (dl_id ex) s) (\<lambda>_.
            io_bind (deleteDailyLogConditions E (dl_id ex)) (\<lambda>_.
            io_bind (deleteDailyLogTriggers E (dl_id ex)) (\<lambda>_.
            io_return (dl_id ex))))
        | None \<Rightarrow>
            io_bind (insertDailyLog E uid s) (\<lambda>created. io_return (dl_id created)))
       (\<lambda>dailyLogId.
     io_bind
       (if length (selectedConditions s) > 0
        then insertDailyLogConditions E dailyLogId s else io_return ()) (\<lambda>_.
       (if length (triggerEntries (triggerValues s)) > 0
        then insertDailyLogTriggers E dailyLogId (triggerEntries (triggerValues s))
        else io_return ()))))"

definition persistMoment :: "env \<Rightarrow> string \<Rightarrow> screen \<Rightarrow> unit io" where
  "persistMoment E uid s =
     io_bind (insertMomentLog E uid s) (\<lambda>moment.
     io_bind
       (if length (selectedConditions s) > 0
        then insertMomentLogConditions E (ml_id moment) s else io_return ()) (\<lambda>_.
       (if length (triggerEntries (triggerValues s)) > 0
        then insertMomentLogTriggers E (ml_id moment) (triggerEntries (triggerValues s))
        else io_return ())))"

definition persist :: "env \<Rightarrow> string \<Rightarrow> screen \<Rightarrow> unit io" where
  "persist E uid s = (if mode s = Daily then persistDaily E uid s else persistMoment E uid s)"

text \<open>The six tables of check-ins.\<close>

definition checkinTables ::
  "world \<Rightarrow> daily_log list \<times> daily_log_condition list \<times> daily_log_trigger list
     \<times> moment_log list \<times> moment_log_condition list \<times> moment_log_trigger list" where
  "checkinTables w =
     (daily_logs w, daily_log_conditions w, daily_log_triggers w,
      moment_logs w, moment_log_conditions w, moment_log_triggers w)"

text \<open>\<open>keeps f m\<close>: the computation \<open>m\<close> leaves the part \<open>f\<close> of the world as it was.\<close>

definition keeps :: "(world \<Rightarrow> 'x) \<Rightarrow> 'a io \<Rightarrow> bool" where
  "keeps f m = (\<forall>w. f (snd (m w)) = f w)"

text \<open>
  The calls of a save in the order of the source, when every call is answered: of the
  insertions of the children, of the store writes, and of the whole save.
\<close>

definition childrenPlan :: "screen \<Rightarrow> call list" where
  "childrenPlan s =
     (if selectedConditions s \<noteq> [] then [InsertDailyLogConditions] else [])
     @ (if triggerEntries (triggerValues s) \<noteq> [] then [InsertDailyLogTriggers] else [])"

definition persistPlan :: "string \<Rightarrow> screen \<Rightarrow> world \<Rightarrow> call list" where
  "persistPlan uid s w =
     (if mode s = Daily
      then [SelectDailyLog]
           @ (if filter (\<lambda>r. dl_user_id r = uid \<and> dl_date r = today s) (daily_logs w) = []
              then [InsertDailyLog]
              else [UpdateDailyLog, DeleteDailyLogConditions, DeleteDailyLogTriggers])
           @ childrenPlan s
      else [InsertMomentLog]
           @ (if selectedConditions s \<noteq> [] then [InsertMomentLogConditions] else [])
           @ (if triggerEntries (triggerValues s) \<noteq> [] then [InsertMomentLogTriggers] else []))"

definition savePlan :: "string \<Rightarrow> screen \<Rightarrow> world \<Rightarrow> call list" where
  "savePlan uid s w = persistPlan uid s w @ [SelectUser, UpdateUser, RemoveDraft]"

text \<open>
  \<open>follows E plan w rw\<close>: the run from \<open>w\<close> with outcome \<open>rw\<close> issued the calls of the plan
  in order, all of them when it returned; when it threw, it stopped at a rejected call,
  the first one, whose error is the one thrown.
\<close>

definition follows :: "env \<Rightarrow> call list \<Rightarrow> world \<Rightarrow> (string + 'a) \<times> world \<Rightarrow> bool" where
  "follows E plan w rw =
     (\<exists>cs. requests (snd rw) = requests w @ cs \<and> prefix cs plan \<and>
        (case fst rw of
           Inr a \<Rightarrow> cs = plan \<and> (\<forall>c \<in> set cs. faults E c = None)
         | Inl e \<Rightarrow> cs \<noteq> [] \<and> faults E (last cs) = Some e
                    \<and> (\<forall>c \<in> set (butlast cs). faults E c = None)))"

text \<open>
  More samples: an environment in which the update of the streak is rejected, one in which
  the insertion of the trigger entries is rejected, one in which the read of the streak is
  rejected, and the form of a second save with another condition and another trigger.
\<close>

definition ex_streak_down :: env where
  "ex_streak_down =
     ex_env\<lparr>faults := (\<lambda>c. if c = UpdateUser then Some ''streak unavailable'' else None)\<rparr>"

definition ex_insert_fails :: env where
  "ex_insert_fails =
     ex_env\<lparr>faults := (\<lambda>c. if c = InsertDailyLogTriggers then Some ''network'' else None)\<rparr>"

definition ex_fetch_down :: env where
  "ex_fetch_down = ex_env\<lparr>faults := (\<lambda>c. if c = SelectUser then Some ''offline'' else None)\<rparr>"

definition ex_second :: screen where
  "ex_second = ex_screen\<lparr>selectedConditions := [''c3''], conditionSeverities := [(''c3'', 4)],
     triggerValues := [(''t3'', \<lparr>tv_value = Some 3, tv_valueText = None\<rparr>)],
     hydrated := True\<rparr>"

section \<open>Properties of the form state store\<close>

lemmas io_defs = io_bind_def io_return_def request_def maybeSingle_def

lemmas save_defs = handleSave_def saveDaily_def saveMoment_def selectDailyLog_def
  updateDailyLog_def updatedDailyLog_def dailyConditionRow_def dailyTriggerRow_def
  deleteDailyLogConditions_def deleteDailyLogTriggers_def insertDailyLog_def
  insertDailyLogConditions_def insertDailyLogTriggers_def insertMomentLog_def
  insertMomentLogConditions_def insertMomentLogTriggers_def updateStreak_def clearDraft_def
  triggerEntries_def finalOverallSeverity_def avgConditionSeverity_def textOrNull_def orNull_def
  orElse_def resetForm_def

lemmas hydrate_defs = hydrate_resume_def hydrateEffect_def hydrate_start_def
  hydrate_afterDraft_def hydrate_afterDaily_def hydrate_afterConditions_def
  hydrate_afterTriggers_def hydrate_finish_def hydrateCleanup_def loadDraft_def
  selectDailyLogConditions_def selectDailyLogTriggers_def selectDailyLog_def resetForm_def
  pressMode_def

lemmas ex_defs = ex_env_def ex_screen_def ex_world_def ex_edited_def

text \<open>
  Claim C6. For every list of enabled triggers and every state of the trigger values, the
  visible list leaves out the triggers keyed \<open>period_pain\<close> whenever the value of the
  trigger keyed \<open>on_period\<close> is anything but exactly 1 (also when that trigger is not enabled,
  has no entry, or has a null value), keeps them when the value is exactly 1, and passes
  every other trigger through in either case.
\<close>

theorem filteredTriggers_period_pain:
  "filteredTriggers ts tvs =
     (if onPeriodValue ts tvs = Some 1 then ts
      else filter (\<lambda>t. t_key t \<noteq> ''period_pain'') ts)"
proof -
  have sp: "showPeriodPain ts tvs \<longleftrightarrow> onPeriodValue ts tvs = Some 1"
    by (simp add: showPeriodPain_def onPeriodTrigger_def onPeriodValue_def split: option.splits)
  show ?thesis
  proof (cases "onPeriodValue ts tvs = Some 1")
    case True
    then show ?thesis by (simp add: filteredTriggers_def sp)
  next
    case False
    then have "\<not> showPeriodPain ts tvs" by (simp add: sp)
    then show ?thesis by (simp add: filteredTriggers_def False cong: filter_cong)
  qed
qed

theorem filteredTriggers_period_pain_witness:
  "filteredTriggers
     [\<lparr>t_id = ''t1'', t_key = ''on_period'', t_label = ''On period'', t_input_type = Binary\<rparr>,
      \<lparr>t_id = ''t2'', t_key = ''period_pain'', t_label = ''Period pain'', t_input_type = Scale\<rparr>,
      \<lparr>t_id = ''t3'', t_key = ''stress'', t_label = ''Stress'', t_input_type = Scale\<rparr>]
     [(''t1'', \<lparr>tv_value = Some 0, tv_valueText = Some ''No''\<rparr>)]
   = [\<lparr>t_id = ''t1'', t_key = ''on_period'', t_label = ''On period'', t_input_type = Binary\<rparr>,
      \<lparr>t_id = ''t3'', t_key = ''stress'', t_label = ''Stress'', t_input_type = Scale\<rparr>]"
  using filteredTriggers_period_pain
    [of "[\<lparr>t_id = ''t1'', t_key = ''on_period'', t_label = ''On period'', t_input_type = Binary\<rparr>,
          \<lparr>t_id = ''t2'', t_key = ''period_pain'', t_label = ''Period pain'', t_input_type = Scale\<rparr>,
          \<lparr>t_id = ''t3'', t_key = ''stress'', t_label = ''Stress'', t_input_type = Scale\<rparr>]"
        "[(''t1'', \<lparr>tv_value = Some 0, tv_valueText = Some ''No''\<rparr>)]"]
  by (simp add: onPeriodValue_def)

lemma prune_map_of_aux:
  "map_of (foldl (\<lambda>next t. case map_of prev (t_id t) of
                        Some d \<Rightarrow> AList.update (t_id t) d next
                      | None \<Rightarrow> next) acc ts) k =
     (if k \<in> t_id ` set ts \<and> map_of prev k \<noteq> None then map_of prev k else map_of acc k)"
  by (induction ts arbitrary: acc) (auto simp: update_conv' split: option.splits)

lemma prune_distinct_aux:
  "distinct (map fst acc) \<Longrightarrow>
   distinct (map fst (foldl (\<lambda>next t. case map_of prev (t_id t) of
                        Some d \<Rightarrow> AList.update (t_id t) d next
                      | None \<Rightarrow> next) acc ts))"
  by (induction ts arbitrary: acc) (auto simp: distinct_update split: option.splits)

text \<open>
  Claim C10. Whenever the enabled triggers are reloaded successfully (the query answers
  and every row carries its trigger), the list of enabled triggers becomes the fetched
  non-group triggers, and the trigger values of the form are pruned to them: afterwards an
  identifier has an entry exactly when it is the identifier of a fetched leaf trigger and
  had an entry before, and that entry is the one it had. The value of a trigger that is no
  longer enabled is thereby dropped.
\<close>

theorem loadEnabledTriggers_prunes:
  assumes "userId s = Some u" and "\<forall>ut \<in> set data. ut_trigger ut \<noteq> None"
  shows "enabledTriggers (loadEnabledTriggers (Inr data) s) =
           filter (\<lambda>t. t_input_type t \<noteq> Group) (map (\<lambda>ut. the (ut_trigger ut)) data)
       \<and> (\<forall>k. map_of (triggerValues (loadEnabledTriggers (Inr data) s)) k =
               (if k \<in> t_id ` set (enabledTriggers (loadEnabledTriggers (Inr data) s))
                then map_of (triggerValues s) k else None))
       \<and> distinct (map fst (triggerValues (loadEnabledTriggers (Inr data) s)))"
proof -
  let ?leaf = "filter (\<lambda>t. t_input_type t \<noteq> Group) (map (\<lambda>ut. the (ut_trigger ut)) data)"
  have s': "loadEnabledTriggers (Inr data) s =
      s\<lparr>enabledTriggers := ?leaf, triggerValues := pruneTriggerValues ?leaf (triggerValues s),
        triggersLoading := False\<rparr>"
  proof -
    have h: "\<not> (\<exists>ut \<in> set data. ut_trigger ut = None)" using assms(2) by blast
    show ?thesis by (simp add: loadEnabledTriggers_def Let_def h assms(1))
  qed
  have m: "map_of (pruneTriggerValues ?leaf (triggerValues s)) k =
     (if k \<in> t_id ` set ?leaf then map_of (triggerValues s) k else None)" for k
    unfolding pruneTriggerValues_def by (simp only: prune_map_of_aux) auto
  have d: "distinct (map fst (pruneTriggerValues ?leaf (triggerValues s)))"
    unfolding pruneTriggerValues_def by (rule prune_distinct_aux) simp
  show ?thesis by (simp only: s') (simp add: m d)
qed

theorem loadEnabledTriggers_prunes_witness:
  "enabledTriggers (loadEnabledTriggers
      (Inr [\<lparr>ut_trigger_id = ''t1'', ut_trigger = Some \<lparr>t_id = ''t1'', t_key = ''sleep'',
                 t_label = ''Sleep'', t_input_type = Enum\<rparr>\<rparr>,
            \<lparr>ut_trigger_id = ''g1'', ut_trigger = Some \<lparr>t_id = ''g1'', t_key = ''food'',
                 t_label = ''Food'', t_input_type = Group\<rparr>\<rparr>]) ex_edited)
     = [\<lparr>t_id = ''t1'', t_key = ''sleep'', t_label = ''Sleep'', t_input_type = Enum\<rparr>]
   \<and> map_of (triggerValues (loadEnabledTriggers
      (Inr [\<lparr>ut_trigger_id = ''t1'', ut_trigger = Some \<lparr>t_id = ''t1'', t_key = ''sleep'',
                 t_label = ''Sleep'', t_input_type = Enum\<rparr>\<rparr>,
            \<lparr>ut_trigger_id = ''g1'', ut_trigger = Some \<lparr>t_id = ''g1'', t_key = ''food'',
                 t_label = ''Food'', t_input_type = Group\<rparr>\<rparr>]) ex_edited)) ''t2'' = None
   \<and> map_of (triggerValues ex_edited) ''t2'' = Some \<lparr>tv_value = Some 0, tv_valueText = Some ''4 hours''\<rparr>"
  using loadEnabledTriggers_prunes [of ex_edited "''u1''"
      "[\<lparr>ut_trigger_id = ''t1'', ut_trigger = Some \<lparr>t_id = ''t1'', t_key = ''sleep'',
                 t_label = ''Sleep'', t_input_type = Enum\<rparr>\<rparr>,
            \<lparr>ut_trigger_id = ''g1'', ut_trigger = Some \<lparr>t_id = ''g1'', t_key = ''food'',
                 t_label = ''Food'', t_input_type = Group\<rparr>\<rparr>]"]
  by (simp add: ex_edited_def ex_screen_def)

section \<open>Properties of the values a save computes\<close>

lemma foldl_sev_sum:
  "foldl (\<lambda>sum i. sum + f i) a xs = a + sum_list (map f xs)" for a :: int
  by (induction xs arbitrary: a) simp_all

lemma math_round_div:
  assumes "0 < n"
  shows "math_round (of_int s / of_nat n) = (2 * s + int n) div (2 * int n)"
proof -
  have "(of_int s / of_nat n + 1 / 2 :: rat) = of_int (2 * s + int n) / of_int (2 * int n)"
    using assms by (simp add: field_simps)
  then show ?thesis
    unfolding math_round_def by (simp only: floor_divide_of_int_eq)
qed

lemma avg_selected:
  "avgConditionSeverity sel sev =
     (if sel = [] then None
      else Some ((2 * sum_list (map (severityOrZero sev) sel) + int (length sel))
                 div (2 * int (length sel))))"
proof (cases "sel = []")
  case True then show ?thesis by (simp add: avgConditionSeverity_def)
next
  case False
  then have n: "0 < length sel" by simp
  have "foldl (\<lambda>sum i. sum + (case map_of sev i of Some v \<Rightarrow> v | None \<Rightarrow> 0)) 0 sel
        = sum_list (map (severityOrZero sev) sel)"
    using foldl_sev_sum [of "severityOrZero sev" 0 sel] by (simp add: severityOrZero_def)
  with False n show ?thesis
    by (simp add: avgConditionSeverity_def math_round_div)
qed

lemma severities_of_keys:
  "distinct (map fst sev) \<Longrightarrow> map (severityOrZero sev) (map fst sev) = map snd sev"
proof (induction sev)
  case Nil then show ?case by simp
next
  case (Cons p sev)
  then have "fst p \<notin> set (map fst sev)" by simp
  then have "\<forall>k \<in> set (map fst sev). severityOrZero (p # sev) k = severityOrZero sev k"
    by (cases p) (auto simp: severityOrZero_def)
  then have "map (severityOrZero (p # sev)) (map fst sev) = map (severityOrZero sev) (map fst sev)"
    by (simp only: map_eq_conv)
  with Cons show ?case by (simp add: severityOrZero_def)
qed

lemma selected_sum_is_set_sum:
  assumes "distinct sel" "distinct (map fst sev)" "set (map fst sev) = set sel"
  shows "sum_list (map (severityOrZero sev) sel) = sum_list (map snd sev)"
    and "length sel = length sev"
proof -
  have "sum_list (map snd sev) = sum_list (map (severityOrZero sev) (map fst sev))"
    using assms(2) by (simp only: severities_of_keys)
  also have "\<dots> = sum (severityOrZero sev) (set (map fst sev))"
    using assms(2) by (rule sum_list_distinct_conv_sum_set)
  also have "\<dots> = sum (severityOrZero sev) (set sel)" by (simp only: assms(3))
  also have "\<dots> = sum_list (map (severityOrZero sev) sel)"
    using assms(1) by (rule sum_list_distinct_conv_sum_set [symmetric])
  finally show "sum_list (map (severityOrZero sev) sel) = sum_list (map snd sev)" by simp
  have "length sel = card (set sel)" using assms(1) by (simp add: distinct_card)
  also have "\<dots> = card (set (map fst sev))" by (simp only: assms(3))
  also have "\<dots> = length (map fst sev)" using assms(2) by (rule distinct_card)
  finally show "length sel = length sev" by simp
qed

lemma spec_mean:
  "spec_finalOverallSeverity s =
     (case overallSeverity s of
        Some v \<Rightarrow> Some v
      | None \<Rightarrow>
         (if conditionSeverities s = [] then None
          else Some ((2 * sum_list (map snd (conditionSeverities s))
                       + int (length (conditionSeverities s)))
                     div (2 * int (length (conditionSeverities s))))))"
  by (simp add: spec_finalOverallSeverity_def math_round_div split: option.splits)

text \<open>
  Claim C2, as stated, fails. With no explicit overall severity, two selected conditions and
  a severity of 6 set for the first only, the save persists 3 (the sum 6 over the two
  selected conditions), where the mean of the severities that are set is 6.
\<close>

theorem finalOverallSeverity_unset_counterexample:
  "finalOverallSeverity ex_unset = Some 3 \<and> spec_finalOverallSeverity ex_unset = Some 6"
  by (simp add: finalOverallSeverity_def avg_selected spec_mean severityOrZero_def
        ex_unset_def ex_screen_def)

text \<open>
  Claim C2, amended. The persisted overall severity is the explicit field when it is set.
  Otherwise, when at least one condition is selected, it is the sum of the severities of
  the selected conditions, a selected condition without a severity counting 0, divided by
  the number of selected conditions and rounded half up; when no condition is selected it
  is null. This is the rounded mean of the set severities whenever the conditions that have
  a severity are exactly the selected ones (so 6 and 7 give 7).
\<close>

theorem finalOverallSeverity_selected_mean:
  "finalOverallSeverity s =
     (case overallSeverity s of
        Some v \<Rightarrow> Some v
      | None \<Rightarrow>
         (if selectedConditions s = [] then None
          else Some ((2 * sum_list (map (severityOrZero (conditionSeverities s))
                                     (selectedConditions s))
                       + int (length (selectedConditions s)))
                     div (2 * int (length (selectedConditions s))))))
   \<and> (distinct (selectedConditions s) \<and> distinct (map fst (conditionSeverities s))
        \<and> set (map fst (conditionSeverities s)) = set (selectedConditions s)
      \<longrightarrow> finalOverallSeverity s = spec_finalOverallSeverity s)"
proof (intro conjI impI)
  show "finalOverallSeverity s =
     (case overallSeverity s of
        Some v \<Rightarrow> Some v
      | None \<Rightarrow>
         (if selectedConditions s = [] then None
          else Some ((2 * sum_list (map (severityOrZero (conditionSeverities s))
                                     (selectedConditions s))
                       + int (length (selectedConditions s)))
                     div (2 * int (length (selectedConditions s))))))"
    by (simp add: finalOverallSeverity_def avg_selected split: option.splits)
next
  assume a: "distinct (selectedConditions s) \<and> distinct (map fst (conditionSeverities s))
        \<and> set (map fst (conditionSeverities s)) = set (selectedConditions s)"
  then have e: "sum_list (map (severityOrZero (conditionSeverities s)) (selectedConditions s))
                = sum_list (map snd (conditionSeverities s))"
    and l: "length (selectedConditions s) = length (conditionSeverities s)"
    using selected_sum_is_set_sum by blast+
  from l have n: "selectedConditions s = [] \<longleftrightarrow> conditionSeverities s = []" by auto
  show "finalOverallSeverity s = spec_finalOverallSeverity s"
    by (simp add: finalOverallSeverity_def avg_selected spec_mean e l n split: option.splits)
qed

theorem finalOverallSeverity_selected_mean_witness:
  "finalOverallSeverity
     (ex_screen\<lparr>selectedConditions := [''A'', ''B''], conditionSeverities := [(''A'', 6), (''B'', 7)]\<rparr>)
     = Some 7
   \<and> spec_finalOverallSeverity
     (ex_screen\<lparr>selectedConditions := [''A'', ''B''], conditionSeverities := [(''A'', 6), (''B'', 7)]\<rparr>)
     = Some 7
   \<and> finalOverallSeverity ex_screen = None
   \<and> finalOverallSeverity (ex_screen\<lparr>overallSeverity := Some 0, selectedConditions := [''A''],
        conditionSeverities := [(''A'', 9)]\<rparr>) = Some 0"
  using finalOverallSeverity_selected_mean
      [of "ex_screen\<lparr>selectedConditions := [''A'', ''B''],
             conditionSeverities := [(''A'', 6), (''B'', 7)]\<rparr>"]
    finalOverallSeverity_selected_mean [of ex_screen]
    finalOverallSeverity_selected_mean
      [of "ex_screen\<lparr>overallSeverity := Some 0, selectedConditions := [''A''],
             conditionSeverities := [(''A'', 9)]\<rparr>"]
  by (simp add: ex_screen_def severityOrZero_def spec_mean)

text \<open>
  Claim C8. For every state of the trigger values, the entries written by a save hold
  exactly one entry for each trigger whose value is not null and none for a trigger whose
  value is null or that has no entry; each written entry carries the value of its trigger
  and its label (null for an empty or missing label).
\<close>

theorem triggerEntries_non_null:
  assumes "distinct (map fst tvs)"
  shows "(\<forall>k. length (filter (\<lambda>e. te_trigger_id e = k) (triggerEntries tvs)) =
              (case map_of tvs k of
                 None \<Rightarrow> 0
               | Some d \<Rightarrow> (case tv_value d of None \<Rightarrow> 0 | Some v \<Rightarrow> 1)))
       \<and> (\<forall>e \<in> set (triggerEntries tvs).
             \<exists>d. map_of tvs (te_trigger_id e) = Some d \<and> tv_value d = Some (te_value e)
                \<and> te_value_text e = orNull (tv_valueText d))"
  using assms
proof (induction tvs)
  case Nil
  then show ?case by (simp add: triggerEntries_def)
next
  case (Cons p tvs)
  obtain k0 d0 where p: "p = (k0, d0)" by (cases p)
  from Cons.prems p have k0: "k0 \<notin> fst ` set tvs" and dist: "distinct (map fst tvs)" by auto
  note IH = Cons.IH [OF dist]
  have none: "map_of tvs k0 = None" using k0 by (simp add: map_of_eq_None_iff)
  have step: "triggerEntries (p # tvs) =
      (case tv_value d0 of None \<Rightarrow> [] | Some v \<Rightarrow>
         [\<lparr>te_trigger_id = k0, te_value = v, te_value_text = orNull (tv_valueText d0)\<rparr>])
      @ triggerEntries tvs"
    by (simp add: triggerEntries_def p split: option.splits)
  have cnt0: "length (filter (\<lambda>e. te_trigger_id e = k0) (triggerEntries tvs)) = 0"
    using IH none by simp
  show ?case
  proof (intro conjI allI ballI)
    fix k
    show "length (filter (\<lambda>e. te_trigger_id e = k) (triggerEntries (p # tvs))) =
              (case map_of (p # tvs) k of
                 None \<Rightarrow> 0
               | Some d \<Rightarrow> (case tv_value d of None \<Rightarrow> 0 | Some v \<Rightarrow> 1))"
    proof (cases "k = k0")
      case True
      then show ?thesis using cnt0 by (simp only: step) (simp add: p split: option.splits)
    next
      case False
      then show ?thesis using IH by (simp only: step) (simp add: p split: option.splits)
    qed
  next
    fix e assume "e \<in> set (triggerEntries (p # tvs))"
    then have "e \<in> set (case tv_value d0 of None \<Rightarrow> [] | Some v \<Rightarrow>
         [\<lparr>te_trigger_id = k0, te_value = v, te_value_text = orNull (tv_valueText d0)\<rparr>])
        \<or> e \<in> set (triggerEntries tvs)"
      by (simp only: step set_append Un_iff)
    then consider (hd) v where "tv_value d0 = Some v"
        "e = \<lparr>te_trigger_id = k0, te_value = v, te_value_text = orNull (tv_valueText d0)\<rparr>"
      | (tl) "e \<in> set (triggerEntries tvs)"
      by (cases "tv_value d0") auto
    then show "\<exists>d. map_of (p # tvs) (te_trigger_id e) = Some d \<and> tv_value d = Some (te_value e)
                \<and> te_value_text e = orNull (tv_valueText d)"
    proof cases
      case hd then show ?thesis by (simp add: p)
    next
      case tl
      with IH obtain d where d: "map_of tvs (te_trigger_id e) = Some d"
        "tv_value d = Some (te_value e)" "te_value_text e = orNull (tv_valueText d)" by blast
      from d(1) none have "te_trigger_id e \<noteq> k0" by auto
      with d show ?thesis by (simp add: p)
    qed
  qed
qed

theorem triggerEntries_non_null_witness:
  "triggerEntries [(''t1'', \<lparr>tv_value = Some 1, tv_valueText = Some ''Yes''\<rparr>),
                   (''t2'', \<lparr>tv_value = None, tv_valueText = None\<rparr>),
                   (''t3'', \<lparr>tv_value = Some 3, tv_valueText = None\<rparr>)]
     = [\<lparr>te_trigger_id = ''t1'', te_value = 1, te_value_text = Some ''Yes''\<rparr>,
        \<lparr>te_trigger_id = ''t3'', te_value = 3, te_value_text = None\<rparr>]
   \<and> length (filter (\<lambda>e. te_trigger_id e = ''t2'')
        (triggerEntries [(''t1'', \<lparr>tv_value = Some 1, tv_valueText = Some ''Yes''\<rparr>),
                         (''t2'', \<lparr>tv_value = None, tv_valueText = None\<rparr>),
                         (''t3'', \<lparr>tv_value = Some 3, tv_valueText = None\<rparr>)])) = 0
   \<and> length (filter (\<lambda>e. te_trigger_id e = ''t3'')
        (triggerEntries [(''t1'', \<lparr>tv_value = Some 1, tv_valueText = Some ''Yes''\<rparr>),
                         (''t2'', \<lparr>tv_value = None, tv_valueText = None\<rparr>),
                         (''t3'', \<lparr>tv_value = Some 3, tv_valueText = None\<rparr>)])) = 1"
  using triggerEntries_non_null
      [of "[(''t1'', \<lparr>tv_value = Some 1, tv_valueText = Some ''Yes''\<rparr>),
            (''t2'', \<lparr>tv_value = None, tv_valueText = None\<rparr>),
            (''t3'', \<lparr>tv_value = Some 3, tv_valueText = None\<rparr>)]"]
  by (simp add: triggerEntries_def orNull_def)

section \<open>Properties of the hydration resolver\<close>

lemma request_ok:
  "faults E c = None \<Longrightarrow> request E c op w = op (w\<lparr>requests := requests w @ [c]\<rparr>)"
  by (simp add: request_def)

lemma resume_draft:
  assumes "p_at p = AwaitDraft" and "\<not> p_cancelled p" and "p_userId p = Some u"
    and "asyncStorage w (draftKey (p_userId p) (p_today p) (p_mode p)) = Some (Json d)"
    and "faults E GetDraft = None"
  shows "hydrate_resume E p s w =
           (p\<lparr>p_at := Finished\<rparr>,
            s\<lparr>overallSeverity := draft_overallSeverity d,
              selectedConditions := draft_selectedConditions d,
              conditionSeverities := draft_conditionSeverities d,
              whatDoing := (if draft_mode d = Moment
                            then (case draft_whatDoing d of Some t \<Rightarrow> t | None \<Rightarrow> [])
                            else []),
              notes := draft_notes d,
              triggerValues := draft_triggerValues d,
              hydrated := True\<rparr>,
            w\<lparr>requests := requests w @ [GetDraft]\<rparr>)"
  using assms
  by (simp add: hydrate_resume_def loadDraft_def io_bind_def io_return_def request_ok
      hydrate_afterDraft_def Let_def)

lemma resumes_finished: "p_at p = Finished \<Longrightarrow> hydrate_resumes n E p s w = (p, s, w)"
  by (induction n) (simp_all add: hydrate_resume_def)

lemma resumes_Suc:
  "hydrate_resume E p s w = (p', s', w') \<Longrightarrow>
   hydrate_resumes (Suc n) E p s w = hydrate_resumes n E p' s' w'"
  by simp

text \<open>
  Claim C1. In every editing context (a signed-in user, a day, a mode) whose key holds a
  parseable draft in the cache, a hydration pass that the cache answers and that is not
  cancelled ends after its first resumption with the form holding exactly the draft:
  overall severity, selected conditions, condition severities, notes and trigger values
  as in the draft, the activity text of the draft only when the draft's own mode is
  \<open>Moment\<close> (empty otherwise), and hydration marked complete. The state of the component is
  otherwise as before, and the only call the pass issued is the read of the cache: nothing
  is read from the tables, whatever they hold for that user and day.
\<close>

theorem hydrate_draft_wins:
  assumes "userId s = Some u"
    and "asyncStorage w (draftKey (userId s) (today s) (mode s)) = Some (Json d)"
    and "faults E GetDraft = None"
  shows "hydrate E s w =
           (\<lparr>p_userId = userId s, p_today = today s, p_mode = mode s, p_cancelled = False,
             p_at = Finished\<rparr>,
            s\<lparr>overallSeverity := draft_overallSeverity d,
              selectedConditions := draft_selectedConditions d,
              conditionSeverities := draft_conditionSeverities d,
              whatDoing := (if draft_mode d = Moment
                            then (case draft_whatDoing d of Some t \<Rightarrow> t | None \<Rightarrow> [])
                            else []),
              notes := draft_notes d,
              triggerValues := draft_triggerValues d,
              hydrated := True\<rparr>,
            w\<lparr>requests := requests w @ [GetDraft]\<rparr>)"
proof -
  let ?p = "\<lparr>p_userId = userId s, p_today = today s, p_mode = mode s, p_cancelled = False,
             p_at = AwaitDraft\<rparr>"
  have e: "hydrateEffect s = (?p, resetForm (s\<lparr>hydrated := False\<rparr>))"
    using assms(1) by (simp add: hydrateEffect_def hydrate_start_def)
  have r: "hydrate_resume E ?p (resetForm (s\<lparr>hydrated := False\<rparr>)) w =
      (?p\<lparr>p_at := Finished\<rparr>,
       (resetForm (s\<lparr>hydrated := False\<rparr>))\<lparr>overallSeverity := draft_overallSeverity d,
              selectedConditions := draft_selectedConditions d,
              conditionSeverities := draft_conditionSeverities d,
              whatDoing := (if draft_mode d = Moment
                            then (case draft_whatDoing d of Some t \<Rightarrow> t | None \<Rightarrow> [])
                            else []),
              notes := draft_notes d,
              triggerValues := draft_triggerValues d,
              hydrated := True\<rparr>,
       w\<lparr>requests := requests w @ [GetDraft]\<rparr>)"
    using assms by (intro resume_draft) simp_all
  have "hydrate E s w = hydrate_resumes (Suc 3) E ?p (resetForm (s\<lparr>hydrated := False\<rparr>)) w"
    by (simp add: hydrate_def e)
  also note resumes_Suc [OF r]
  also note resumes_finished
  finally show ?thesis by (simp add: resetForm_def)
qed

theorem hydrate_draft_wins_witness:
  "faults ex_env GetDraft = None
   \<and> map dl_id (daily_logs ex_world) = [''log-1'']
   \<and> hydrate ex_env ex_screen
     (ex_world\<lparr>asyncStorage := [draftKey (Some ''u1'') ''2025-03-01'' Daily \<mapsto> Json ex_draft]\<rparr>) =
     (\<lparr>p_userId = Some ''u1'', p_today = ''2025-03-01'', p_mode = Daily, p_cancelled = False,
       p_at = Finished\<rparr>,
      ex_screen\<lparr>overallSeverity := Some 8, selectedConditions := [''c2''],
        conditionSeverities := [(''c2'', 6)], whatDoing := [], notes := ''draft note'',
        triggerValues := [(''t2'', \<lparr>tv_value = Some 0, tv_valueText = Some ''4 hours''\<rparr>)],
        hydrated := True\<rparr>,
      ex_world\<lparr>asyncStorage := [draftKey (Some ''u1'') ''2025-03-01'' Daily \<mapsto> Json ex_draft],
        requests := [GetDraft]\<rparr>)"
  using hydrate_draft_wins [of ex_screen "''u1''"
      "ex_world\<lparr>asyncStorage := [draftKey (Some ''u1'') ''2025-03-01'' Daily \<mapsto> Json ex_draft]\<rparr>"
      ex_draft ex_env]
  by (simp add: ex_screen_def ex_world_def ex_draft_def ex_env_def)

text \<open>
  A cancelled pass never marks hydration complete, whatever it is resumed with; and the
  code that runs after the answers of the two child queries does not read \<open>cancelled\<close>
  before it writes.
\<close>

lemma cancelled_pass_hydrated:
  "p_cancelled p \<Longrightarrow> hydrate_resume E p s w = (p', s', w') \<Longrightarrow> hydrated s' = hydrated s"
  by (auto simp: hydrate_resume_def hydrate_afterDraft_def hydrate_afterDaily_def
        hydrate_afterConditions_def hydrate_afterTriggers_def hydrate_finish_def Let_def
      split: hydrate_await.splits prod.splits sum.splits option.splits if_splits)

lemma afterConditions_ignores_cancelled:
  "selectedConditions (snd (hydrate_afterConditions True logId (Inr dc) s))
     = map dlc_user_condition_id dc"
  by (simp add: hydrate_afterConditions_def Let_def)

text \<open>
  Claim C4 fails on the code. In the sample run the pass of the daily context is cancelled
  by the switch to the other mode while its conditions query is pending, and the new pass
  has reset the form (the first component). When the two pending queries of the cancelled
  pass are answered, it writes the selected conditions, the condition severities and the
  trigger values of the persisted daily log into the form of the new context. The new
  pass finds no draft and marks hydration complete over them, and the autosave effect
  then writes them to the cache as the draft of the new mode.
\<close>

theorem stale_pass_writes:
  "stale_pass_run =
     (ex_screen\<lparr>mode := Moment\<rparr>,
      (\<lparr>p_userId = Some ''u1'', p_today = ''2025-03-01'', p_mode = Daily, p_cancelled = True,
         p_at = Finished\<rparr>,
       \<lparr>p_userId = Some ''u1'', p_today = ''2025-03-01'', p_mode = Moment, p_cancelled = False,
         p_at = Finished\<rparr>),
      ex_screen\<lparr>mode := Moment, selectedConditions := [''c1''],
        conditionSeverities := [(''c1'', 6)],
        triggerValues := [(''t1'', \<lparr>tv_value = Some 1, tv_valueText = Some ''Yes''\<rparr>)],
        hydrated := True\<rparr>,
      ex_world\<lparr>requests := [GetDraft, SelectDailyLog, SelectDailyLogConditions,
                              SelectDailyLogTriggers, GetDraft]\<rparr>)
   \<and> asyncStorage (autosaveEffect ex_env (fst (snd (snd stale_pass_run)))
                       (snd (snd (snd stale_pass_run))))
       (draftKey (Some ''u1'') ''2025-03-01'' Moment)
     = Some (Json \<lparr>draft_mode = Moment, draft_overallSeverity = None,
          draft_selectedConditions = [''c1''], draft_conditionSeverities = [(''c1'', 6)],
          draft_whatDoing = Some [], draft_notes = [],
          draft_triggerValues = [(''t1'', \<lparr>tv_value = Some 1, tv_valueText = Some ''Yes''\<rparr>)],
          draft_updatedAt = ''2025-03-01T10:00:00.000Z''\<rparr>)"
  by (simp add: stale_pass_run_def hydrate_defs io_defs ex_screen_def ex_world_def ex_env_def
       autosaveEffect_def saveDraft_def draftOf_def)

section \<open>Properties of the autosave effect\<close>

text \<open>The effect writes only when hydration is marked complete and no save is marked done.\<close>

lemma autosaveEffect_guard:
  "autosaveEffect E s w \<noteq> w \<Longrightarrow> userId s \<noteq> None \<and> hydrated s \<and> \<not> saved s"
  by (auto simp: autosaveEffect_def split: if_splits)

text \<open>
  Claim C9 fails on the code in its second half. The sample form is saved with every call
  answered: the draft is removed and \<open>saved\<close> is set. The user then presses the button of
  the saved overlay, which clears \<open>saved\<close>; \<open>saved\<close> is a dependency of the autosave effect,
  so the effect runs in the next render of the still mounted component (the screen is a
  tab), finds hydration complete and \<open>saved\<close> false, and writes a draft of the emptied
  form under the key that was just cleared. A later mount of the screen hydrates the
  empty draft, not the log that was saved.
\<close>

theorem save_then_back_writes_draft:
  "(case save_then_back of (o1, s2, w2, s3) \<Rightarrow>
      asyncStorage ex_drafted (draftKey (Some ''u1'') ''2025-03-01'' Daily)
         = Some (Json (draftOf ex_env ex_edited))
     \<and> o_alert o1 = None \<and> saved (o_screen o1)
     \<and> asyncStorage (o_world o1) (draftKey (Some ''u1'') ''2025-03-01'' Daily) = None
     \<and> autosaveDeps s2 \<noteq> autosaveDeps (o_screen o1)
     \<and> issued (o_world o1) w2 = [SetDraft]
     \<and> asyncStorage w2 (draftKey (Some ''u1'') ''2025-03-01'' Daily)
         = Some (Json (draftOf ex_env (ex_screen\<lparr>hydrated := True\<rparr>)))
     \<and> map dl_overall_severity (daily_logs w2) = [Some 8]
     \<and> s3 = ex_screen\<lparr>hydrated := True\<rparr>)"
  by (simp add: save_then_back_def Let_def save_defs io_defs hydrate_defs hydrate_def
        ex_edited_def ex_drafted_def saveDraft_def ex_screen_def ex_world_def ex_env_def
        pressBackToDashboard_def commitAutosave_def autosaveDeps_def autosaveEffect_def
        issued_def draftOf_def math_round_def eval_nat_numeral)

section \<open>Properties of the persistence controller\<close>

subsection \<open>monad laws\<close>

lemma io_bind_assoc: "io_bind (io_bind m f) g = io_bind m (\<lambda>x. io_bind (f x) g)"
  by (rule ext) (simp add: io_bind_def split: prod.splits sum.splits)

lemma io_bind_if: "io_bind (if b then m else n) k = (if b then io_bind m k else io_bind n k)"
  by simp

lemma saveDaily_persist:
  "saveDaily E uid s =
     io_bind (persistDaily E uid s) (\<lambda>_. io_bind (updateStreak E uid None) (\<lambda>_. clearDraft E s))"
  by (simp add: saveDaily_def persistDaily_def io_bind_assoc io_bind_if cong: if_cong)

lemma saveMoment_persist:
  "saveMoment E uid s =
     io_bind (persistMoment E uid s) (\<lambda>_. io_bind (updateStreak E uid None) (\<lambda>_. clearDraft E s))"
  by (simp add: saveMoment_def persistMoment_def io_bind_assoc io_bind_if cong: if_cong)

subsection \<open>frames\<close>

lemma keeps_return: "keeps f (io_return a)"
  by (simp add: keeps_def io_return_def)

lemma keeps_bind: "keeps f m \<Longrightarrow> (\<And>a. keeps f (k a)) \<Longrightarrow> keeps f (io_bind m k)"
  unfolding keeps_def io_bind_def
  by (auto split: prod.splits sum.splits) (metis snd_conv)+

lemma keeps_request:
  assumes "\<And>v. f (snd (op v)) = f v" and "\<And>v cs. f (v\<lparr>requests := cs\<rparr>) = f v"
  shows "keeps f (request E c op)"
  using assms by (simp add: keeps_def request_def Let_def split: option.splits)

lemma keeps_if: "keeps f m \<Longrightarrow> keeps f n \<Longrightarrow> keeps f (if b then m else n)"
  by simp

lemma keeps_case_option:
  "keeps f m \<Longrightarrow> (\<And>x. keeps f (k x)) \<Longrightarrow> keeps f (case x of None \<Rightarrow> m | Some y \<Rightarrow> k y)"
  by (cases x) simp_all

lemmas keeps_intros = keeps_bind keeps_return keeps_if keeps_case_option

lemmas persist_calls = selectDailyLog_def updateDailyLog_def deleteDailyLogConditions_def
  deleteDailyLogTriggers_def insertDailyLog_def insertDailyLogConditions_def
  insertDailyLogTriggers_def insertMomentLog_def insertMomentLogConditions_def
  insertMomentLogTriggers_def

lemma persist_keeps_cache: "keeps asyncStorage (persist E uid s)"
  unfolding persist_def persistDaily_def persistMoment_def persist_calls
  by (intro keeps_intros keeps_request) (simp_all add: Let_def)

lemma persist_keeps_users: "keeps users (persist E uid s)"
  unfolding persist_def persistDaily_def persistMoment_def persist_calls
  by (intro keeps_intros keeps_request) (simp_all add: Let_def)

lemma updateStreak_keeps_cache: "keeps asyncStorage (updateStreak E uid d)"
  unfolding updateStreak_def Let_def
  by (intro keeps_intros keeps_request) simp_all

lemma updateStreak_keeps_tables: "keeps checkinTables (updateStreak E uid d)"
  unfolding updateStreak_def Let_def
  by (intro keeps_intros keeps_request) (simp_all add: checkinTables_def)

lemma clearDraft_keeps_tables: "keeps checkinTables (clearDraft E s)"
  unfolding clearDraft_def
  by (intro keeps_intros keeps_request) (simp_all add: checkinTables_def)

lemma keepsD: "keeps f m \<Longrightarrow> m w = (r, w') \<Longrightarrow> f w' = f w"
  by (auto simp: keeps_def dest: spec [of _ w])

subsection \<open>traces\<close>

lemma maybeSingle_unique: "length rows \<le> 1 \<Longrightarrow> \<exists>x. maybeSingle rows = Inr x"
  by (auto simp: maybeSingle_def split: list.splits)

lemma follows_return: "follows E [] w (io_return a w)"
  by (simp add: follows_def io_return_def)

lemma follows_bind:
  assumes m: "follows E p w (m w)"
    and k: "\<And>a w1. m w = (Inr a, w1) \<Longrightarrow> follows E q w1 (k a w1)"
  shows "follows E (p @ q) w (io_bind m k w)"
proof (cases "m w")
  case (Pair r w1)
  show ?thesis
  proof (cases r)
    case (Inl e)
    with Pair m show ?thesis by (auto simp: io_bind_def follows_def)
  next
    case (Inr a)
    with Pair m have cs1: "requests w1 = requests w @ p" "\<forall>c \<in> set p. faults E c = None"
      by (auto simp: follows_def)
    from k [of a w1] Pair Inr obtain cs2 where cs2:
      "requests (snd (k a w1)) = requests w1 @ cs2" "prefix cs2 q"
      "case fst (k a w1) of
           Inr a \<Rightarrow> cs2 = q \<and> (\<forall>c \<in> set cs2. faults E c = None)
         | Inl e \<Rightarrow> cs2 \<noteq> [] \<and> faults E (last cs2) = Some e
                    \<and> (\<forall>c \<in> set (butlast cs2). faults E c = None)"
      by (auto simp: follows_def)
    have eq: "io_bind m k w = k a w1" using Pair Inr by (simp add: io_bind_def)
    have "requests (snd (k a w1)) = requests w @ (p @ cs2)" using cs1 cs2 by simp
    moreover have "prefix (p @ cs2) (p @ q)" using cs2(2) by simp
    moreover have "case fst (k a w1) of
           Inr a \<Rightarrow> p @ cs2 = p @ q \<and> (\<forall>c \<in> set (p @ cs2). faults E c = None)
         | Inl e \<Rightarrow> p @ cs2 \<noteq> [] \<and> faults E (last (p @ cs2)) = Some e
                    \<and> (\<forall>c \<in> set (butlast (p @ cs2)). faults E c = None)"
      using cs1(2) cs2(3) by (auto simp: butlast_append split: sum.splits)
    ultimately show ?thesis unfolding eq follows_def by blast
  qed
qed

lemma follows_request:
  assumes "\<exists>a v'. op (w\<lparr>requests := requests w @ [c]\<rparr>) = (Inr a, v')
            \<and> requests v' = requests w @ [c]"
  shows "follows E [c] w (request E c op w)"
proof (cases "faults E c")
  case None
  with assms show ?thesis
    by (auto simp: follows_def request_def Let_def intro!: exI [of _ "[c]"])
next
  case (Some e)
  then show ?thesis
    by (auto simp: follows_def request_def Let_def intro!: exI [of _ "[c]"])
qed

lemma follows_if:
  "(b \<Longrightarrow> follows E p w (m w)) \<Longrightarrow> (\<not> b \<Longrightarrow> follows E q w (n w)) \<Longrightarrow>
   follows E (if b then p else q) w ((if b then m else n) w)"
  by simp

lemmas follows_intros = follows_bind follows_return follows_if follows_request

lemma children_follow:
  "follows E (childrenPlan s) w
     (io_bind
       (if length (selectedConditions s) > 0
        then insertDailyLogConditions E i s else io_return ()) (\<lambda>_.
       (if length (triggerEntries (triggerValues s)) > 0
        then insertDailyLogTriggers E i (triggerEntries (triggerValues s))
        else io_return ())) w)"
  unfolding childrenPlan_def insertDailyLogConditions_def insertDailyLogTriggers_def
    length_greater_0_conv
  by (intro follows_intros) auto

lemma persistDaily_follows:
  assumes d: "mode s = Daily"
    and one: "length (filter (\<lambda>r. dl_user_id r = uid \<and> dl_date r = today s) (daily_logs w)) \<le> 1"
  shows "follows E (persistPlan uid s w) w (persistDaily E uid s w)"
proof -
  let ?rows = "filter (\<lambda>r. dl_user_id r = uid \<and> dl_date r = today s) (daily_logs w)"
  let ?parent = "if ?rows = [] then [InsertDailyLog]
                 else [UpdateDailyLog, DeleteDailyLogConditions, DeleteDailyLogTriggers]"
  have plan: "persistPlan uid s w = [SelectDailyLog] @ (?parent @ childrenPlan s)"
    using d by (simp add: persistPlan_def)
  have sel: "follows E [SelectDailyLog] w (selectDailyLog E uid (today s) w)"
    unfolding selectDailyLog_def using one
    by (intro follows_request) (auto simp: maybeSingle_def split: list.splits)
  show ?thesis
    unfolding plan persistDaily_def
  proof (rule follows_bind)
    show "follows E [SelectDailyLog] w (selectDailyLog E uid (today s) w)" by (rule sel)
  next
    fix a w1 assume run: "selectDailyLog E uid (today s) w = (Inr a, w1)"
    then have a: "a = (case ?rows of [] \<Rightarrow> None | r # _ \<Rightarrow> Some r)"
      unfolding selectDailyLog_def
      by (auto simp: request_def Let_def maybeSingle_def split: option.splits list.splits)
    have parent: "follows E ?parent w1
        ((case a of
          Some ex \<Rightarrow>
            io_bind (updateDailyLog E (dl_id ex) s) (\<lambda>_.
            io_bind (deleteDailyLogConditions E (dl_id ex)) (\<lambda>_.
            io_bind (deleteDailyLogTriggers E (dl_id ex)) (\<lambda>_.
            io_return (dl_id ex))))
        | None \<Rightarrow>
            io_bind (insertDailyLog E uid s) (\<lambda>created. io_return (dl_id created))) w1)"
    proof (cases ?rows)
      case Nil
      then have "a = None" by (simp add: a)
      moreover have "follows E ([InsertDailyLog] @ []) w1
          (io_bind (insertDailyLog E uid s) (\<lambda>created. io_return (dl_id created)) w1)"
        unfolding insertDailyLog_def by (intro follows_intros) (auto simp: Let_def)
      ultimately show ?thesis using Nil by simp
    next
      case (Cons r rest)
      then have "a = Some r" by (simp add: a)
      moreover have "follows E ([UpdateDailyLog] @ [DeleteDailyLogConditions]
            @ [DeleteDailyLogTriggers] @ []) w1
          (io_bind (updateDailyLog E (dl_id r) s) (\<lambda>_.
            io_bind (deleteDailyLogConditions E (dl_id r)) (\<lambda>_.
            io_bind (deleteDailyLogTriggers E (dl_id r)) (\<lambda>_.
            io_return (dl_id r)))) w1)"
        unfolding updateDailyLog_def deleteDailyLogConditions_def deleteDailyLogTriggers_def
        by (intro follows_intros) auto
      ultimately show ?thesis using Cons by simp
    qed
    show "follows E (?parent @ childrenPlan s) w1
        (io_bind
         (case a of
          Some ex \<Rightarrow>
            io_bind (updateDailyLog E (dl_id ex) s) (\<lambda>_.
            io_bind (deleteDailyLogConditions E (dl_id ex)) (\<lambda>_.
            io_bind (deleteDailyLogTriggers E (dl_id ex)) (\<lambda>_.
            io_return (dl_id ex))))
        | None \<Rightarrow>
            io_bind (insertDailyLog E uid s) (\<lambda>created. io_return (dl_id created)))
         (\<lambda>dailyLogId.
           io_bind
             (if length (selectedConditions s) > 0
              then insertDailyLogConditions E dailyLogId s else io_return ()) (\<lambda>_.
             (if length (triggerEntries (triggerValues s)) > 0
              then insertDailyLogTriggers E dailyLogId (triggerEntries (triggerValues s))
              else io_return ()))) w1)"
      by (rule follows_bind, rule parent, rule children_follow)
  qed
qed

lemma persistMoment_follows:
  assumes "mode s \<noteq> Daily"
  shows "follows E (persistPlan uid s w) w (persistMoment E uid s w)"
proof -
  have plan: "persistPlan uid s w = [InsertMomentLog]
           @ (if selectedConditions s \<noteq> [] then [InsertMomentLogConditions] else [])
           @ (if triggerEntries (triggerValues s) \<noteq> [] then [InsertMomentLogTriggers] else [])"
    using assms by (simp add: persistPlan_def)
  show ?thesis
    unfolding plan persistMoment_def insertMomentLog_def insertMomentLogConditions_def
      insertMomentLogTriggers_def length_greater_0_conv
    by (intro follows_intros) (auto simp: Let_def)
qed

lemma updateStreak_follows:
  assumes "length (filter (\<lambda>r. u_id r = uid) (users w)) \<le> 1"
  shows "follows E ([SelectUser] @ [UpdateUser] @ []) w (updateStreak E uid d w)"
proof -
  from maybeSingle_unique [OF assms] obtain x where
    x: "maybeSingle (filter (\<lambda>r. u_id r = uid) (users w)) = Inr x" ..
  show ?thesis
    unfolding updateStreak_def Let_def
    by (intro follows_intros) (auto simp: x)
qed

lemma clearDraft_follows: "userId s = Some uid \<Longrightarrow> follows E [RemoveDraft] w (clearDraft E s w)"
  unfolding clearDraft_def by (simp, intro follows_intros) auto

lemma body_follows:
  assumes u: "userId s = Some uid"
    and "length (filter (\<lambda>r. dl_user_id r = uid \<and> dl_date r = today s) (daily_logs w)) \<le> 1"
    and "length (filter (\<lambda>r. u_id r = uid) (users w)) \<le> 1"
  shows "follows E (savePlan uid s w) w
           (io_bind (persist E uid s)
              (\<lambda>_. io_bind (updateStreak E uid None) (\<lambda>_. clearDraft E s)) w)"
proof -
  have plan: "savePlan uid s w = persistPlan uid s w @ (([SelectUser] @ [UpdateUser] @ []) @ [RemoveDraft])"
    by (simp add: savePlan_def)
  show ?thesis unfolding plan
  proof (rule follows_bind)
    show "follows E (persistPlan uid s w) w (persist E uid s w)"
      using assms(2) by (simp add: persist_def persistDaily_follows persistMoment_follows)
  next
    fix a w1 assume "persist E uid s w = (Inr a, w1)"
    then have "users w1 = users w" by (rule keepsD [OF persist_keeps_users])
    with assms(3) have "follows E ([SelectUser] @ [UpdateUser] @ []) w1 (updateStreak E uid None w1)"
      by (intro updateStreak_follows) simp
    then show "follows E (([SelectUser] @ [UpdateUser] @ []) @ [RemoveDraft]) w1
        (io_bind (updateStreak E uid None) (\<lambda>_. clearDraft E s) w1)"
      by (rule follows_bind) (rule clearDraft_follows [OF u])
  qed
qed

lemmas ex_save_defs = save_defs io_defs ex_defs ex_drafted_def saveDraft_def draftOf_def
  issued_def math_round_def Let_def


lemma body_persist:
  "(if mode s = Daily then saveDaily E uid s else saveMoment E uid s) =
     io_bind (persist E uid s) (\<lambda>_. io_bind (updateStreak E uid None) (\<lambda>_. clearDraft E s))"
  by (simp add: persist_def saveDaily_persist saveMoment_persist)

lemma body_cache:
  assumes u: "userId s = Some uid"
    and run: "io_bind (persist E uid s)
              (\<lambda>_. io_bind (updateStreak E uid None) (\<lambda>_. clearDraft E s)) w = (r, w')"
  shows "case r of
           Inl e \<Rightarrow> asyncStorage w' = asyncStorage w
         | Inr x \<Rightarrow> asyncStorage w' =
                      (asyncStorage w)(draftKey (userId s) (today s) (mode s) := None)"
proof -
  let ?PS = "io_bind (persist E uid s) (\<lambda>_. updateStreak E uid None)"
  have keeps: "keeps asyncStorage ?PS"
    by (intro keeps_bind persist_keeps_cache updateStreak_keeps_cache)
  have run': "io_bind ?PS (\<lambda>_. clearDraft E s) w = (r, w')"
    using run by (simp add: io_bind_assoc)
  obtain r1 w1 where ps: "?PS w = (r1, w1)" by (cases "?PS w")
  have c1: "asyncStorage w1 = asyncStorage w" using keeps ps by (rule keepsD)
  show ?thesis
  proof (cases r1)
    case (Inl e)
    with ps run' have "r = Inl e" "w' = w1" by (simp_all add: io_bind_def)
    with c1 show ?thesis by simp
  next
    case (Inr a)
    with ps run' have "clearDraft E s w1 = (r, w')" by (simp add: io_bind_def)
    with u c1 show ?thesis
      by (auto simp: clearDraft_def request_def Let_def split: option.splits)
  qed
qed

text \<open>
  Claim C5, as stated, fails. In the sample save every write is answered (no write is
  rejected at all) and the read of the user's streak is rejected: the check-in is
  persisted, yet the save is reported as failed and the draft is still in the cache.
\<close>

theorem handleSave_lifecycle_fetch_counterexample:
  "issued ex_drafted (o_world (handleSave ex_fetch_down ex_edited ex_drafted))
     = [SelectDailyLog, UpdateDailyLog, DeleteDailyLogConditions, DeleteDailyLogTriggers,
        InsertDailyLogConditions, InsertDailyLogTriggers, SelectUser]
   \<and> map (faults ex_fetch_down)
        [UpdateDailyLog, DeleteDailyLogConditions, DeleteDailyLogTriggers,
         InsertDailyLogConditions, InsertDailyLogTriggers, UpdateUser, RemoveDraft]
       = [None, None, None, None, None, None, None]
   \<and> daily_log_triggers (o_world (handleSave ex_fetch_down ex_edited ex_drafted))
       = [\<lparr>dlt_daily_log_id = ''log-1'', dlt_trigger_id = ''t2'', dlt_value = Some 0,
           dlt_value_text = Some ''4 hours''\<rparr>]
   \<and> asyncStorage (o_world (handleSave ex_fetch_down ex_edited ex_drafted))
       (draftKey (Some ''u1'') ''2025-03-01'' Daily) = Some (Json (draftOf ex_env ex_edited))
   \<and> o_alert (handleSave ex_fetch_down ex_edited ex_drafted) = Some (''Save failed'', ''offline'')"
  by (simp add: ex_save_defs ex_fetch_down_def)

text \<open>
  Claim C5, amended. For every save attempt of a signed-in user (the store holding at most
  one daily log for the user and day and at most one row for the user, as its constraints
  ensure), the calls of the save sequence are the lookup of the existing log (in daily
  mode), the writes of the check-in, the read and the write of the streak update, and
  the removal of the draft. If any of them is rejected, the save stops at the first
  rejected call (the remaining steps do not run), the failure is shown to the user, the
  cache is exactly as before the save, so that the draft is still there with its contents,
  and the form is untouched. If none is rejected, all of them are issued, the cache is as
  before but for the draft of this key, which is absent, no failure is shown, and the form
  is reset and marked saved.
\<close>

theorem handleSave_lifecycle:
  assumes u: "userId s = Some uid"
    and one_log:
      "length (filter (\<lambda>r. dl_user_id r = uid \<and> dl_date r = today s) (daily_logs w)) \<le> 1"
    and one_user: "length (filter (\<lambda>r. u_id r = uid) (users w)) \<le> 1"
  shows "prefix (issued w (o_world (handleSave E s w))) (savePlan uid s w)
       \<and> (\<forall>c \<in> set (butlast (issued w (o_world (handleSave E s w)))). faults E c = None)
       \<and> (if \<exists>c \<in> set (savePlan uid s w). faults E c \<noteq> None
          then faults E (last (issued w (o_world (handleSave E s w)))) \<noteq> None
             \<and> o_alert (handleSave E s w) \<noteq> None
             \<and> asyncStorage (o_world (handleSave E s w)) = asyncStorage w
             \<and> o_screen (handleSave E s w) = s\<lparr>loading := False\<rparr>
          else issued w (o_world (handleSave E s w)) = savePlan uid s w
             \<and> asyncStorage (o_world (handleSave E s w)) =
                 (asyncStorage w)(draftKey (userId s) (today s) (mode s) := None)
             \<and> o_alert (handleSave E s w) = None
             \<and> o_screen (handleSave E s w) = (resetForm s)\<lparr>saved := True, loading := False\<rparr>)"
proof -
  let ?body = "io_bind (persist E uid s)
                 (\<lambda>_. io_bind (updateStreak E uid None) (\<lambda>_. clearDraft E s))"
  obtain r w' where run: "?body w = (r, w')" by (cases "?body w")
  from body_follows [OF u one_log one_user, of E] run obtain cs where
    cs: "requests w' = requests w @ cs" and pre: "prefix cs (savePlan uid s w)"
    and tr: "case r of
               Inr a \<Rightarrow> cs = savePlan uid s w \<and> (\<forall>c \<in> set cs. faults E c = None)
             | Inl e \<Rightarrow> cs \<noteq> [] \<and> faults E (last cs) = Some e
                        \<and> (\<forall>c \<in> set (butlast cs). faults E c = None)"
    by (auto simp: follows_def)
  note cache = body_cache [OF u run]
  have hs: "handleSave E s w =
      (case r of
         Inr x \<Rightarrow> \<lparr>o_screen = (resetForm s)\<lparr>saved := True, loading := False\<rparr>,
                   o_world = w', o_alert = None, o_console = []\<rparr>
       | Inl e \<Rightarrow> \<lparr>o_screen = s\<lparr>loading := False\<rparr>, o_world = w',
                   o_alert = Some (''Save failed'', if e = [] then ''Check console logs.'' else e),
                   o_console = [''[UnifiedLogScreen] save failed'']\<rparr>)"
    using run u by (simp add: handleSave_def body_persist split: sum.splits)
  have w': "o_world (handleSave E s w) = w'" by (simp add: hs split: sum.splits)
  have iss: "issued w (o_world (handleSave E s w)) = cs" by (simp add: w' issued_def cs)
  show ?thesis
  proof (cases r)
    case (Inl e)
    with tr have f: "cs \<noteq> []" "faults E (last cs) = Some e"
      "\<forall>c \<in> set (butlast cs). faults E c = None" by simp_all
    from f(1) pre have "last cs \<in> set (savePlan uid s w)"
      using set_mono_prefix [OF pre] by auto
    with f(2) have "\<exists>c \<in> set (savePlan uid s w). faults E c \<noteq> None"
      by (intro bexI [of _ "last cs"]) simp_all
    with f pre show ?thesis using cache Inl by (simp add: iss) (simp add: hs)
  next
    case (Inr x)
    with tr have clean: "cs = savePlan uid s w" "\<forall>c \<in> set cs. faults E c = None" by simp_all
    then have "\<forall>c \<in> set (butlast cs). faults E c = None" by (blast dest: in_set_butlastD)
    moreover from clean have "\<not> (\<exists>c \<in> set (savePlan uid s w). faults E c \<noteq> None)" by simp
    ultimately show ?thesis using cache Inr pre clean(1) by (simp add: iss) (simp add: hs)
  qed
qed

theorem handleSave_lifecycle_witness:
  "length (filter (\<lambda>r. dl_user_id r = ''u1'' \<and> dl_date r = ''2025-03-01'') (daily_logs ex_drafted)) = 1
   \<and> length (filter (\<lambda>r. u_id r = ''u1'') (users ex_drafted)) = 1
   \<and> savePlan ''u1'' ex_edited ex_drafted
       = [SelectDailyLog, UpdateDailyLog, DeleteDailyLogConditions, DeleteDailyLogTriggers,
          InsertDailyLogConditions, InsertDailyLogTriggers, SelectUser, UpdateUser, RemoveDraft]
   \<and> asyncStorage ex_drafted (draftKey (Some ''u1'') ''2025-03-01'' Daily)
     = Some (Json (draftOf ex_env ex_edited))
   \<and> asyncStorage (o_world (handleSave ex_env ex_edited ex_drafted))
       (draftKey (Some ''u1'') ''2025-03-01'' Daily) = None
   \<and> o_alert (handleSave ex_env ex_edited ex_drafted) = None
   \<and> issued ex_drafted (o_world (handleSave ex_insert_fails ex_edited ex_drafted))
       = [SelectDailyLog, UpdateDailyLog, DeleteDailyLogConditions, DeleteDailyLogTriggers,
          InsertDailyLogConditions, InsertDailyLogTriggers]
   \<and> o_alert (handleSave ex_insert_fails ex_edited ex_drafted) = Some (''Save failed'', ''network'')
   \<and> asyncStorage (o_world (handleSave ex_insert_fails ex_edited ex_drafted)) = asyncStorage ex_drafted"
  using handleSave_lifecycle [where s = ex_edited and uid = "''u1''" and w = ex_drafted
      and E = ex_env]
    handleSave_lifecycle [where s = ex_edited and uid = "''u1''" and w = ex_drafted
      and E = ex_insert_fails]
  by (simp add: ex_save_defs ex_insert_fails_def savePlan_def persistPlan_def childrenPlan_def)

lemma request_clean:
  "faults E c = None \<Longrightarrow> request E c op = (\<lambda>w. op (w\<lparr>requests := requests w @ [c]\<rparr>))"
  by (rule ext) (simp add: request_def)

lemma persist_noFaults:
  assumes "\<forall>c. c \<noteq> SelectUser \<and> c \<noteq> UpdateUser \<longrightarrow> faults E c = None"
  shows "persist E uid s = persist (noFaults E) uid s"
proof -
  have f: "faults E SelectDailyLog = None" "faults E UpdateDailyLog = None"
    "faults E InsertDailyLog = None" "faults E DeleteDailyLogConditions = None"
    "faults E DeleteDailyLogTriggers = None" "faults E InsertDailyLogConditions = None"
    "faults E InsertDailyLogTriggers = None" "faults E InsertMomentLog = None"
    "faults E InsertMomentLogConditions = None" "faults E InsertMomentLogTriggers = None"
    using assms by simp_all
  have g: "faults (noFaults E) c = None" for c by (simp add: noFaults_def)
  have h: "nowIso (noFaults E) = nowIso E" "newId (noFaults E) = newId E"
    "updatedDailyLog (noFaults E) = updatedDailyLog E"
    by (simp_all add: noFaults_def updatedDailyLog_def fun_eq_iff)
  show ?thesis
    unfolding persist_def persistDaily_def persistMoment_def persist_calls
    by (simp only: request_clean [OF f(1)] request_clean [OF f(2)] request_clean [OF f(3)]
          request_clean [OF f(4)] request_clean [OF f(5)] request_clean [OF f(6)]
          request_clean [OF f(7)] request_clean [OF f(8)] request_clean [OF f(9)]
          request_clean [OF f(10)] request_clean [OF g] h)
qed

lemma updateStreak_fails:
  assumes "faults E SelectUser \<noteq> None \<or> faults E UpdateUser \<noteq> None"
  shows "\<exists>e w'. updateStreak E uid d w = (Inl e, w')"
proof (cases "faults E SelectUser")
  case (Some e)
  then show ?thesis by (simp add: updateStreak_def io_bind_def request_def Let_def)
next
  case None
  with assms obtain e where e: "faults E UpdateUser = Some e" by auto
  show ?thesis
  proof (cases "maybeSingle (filter (\<lambda>r. u_id r = uid) (users w))")
    case (Inl x)
    have "maybeSingle (filter (\<lambda>r. u_id r = uid) (users (w\<lparr>requests := requests w @ [SelectUser]\<rparr>)))
          = Inl x" using Inl by simp
    then show ?thesis using None
      by (simp add: updateStreak_def io_bind_def request_def Let_def del: maybeSingle_def)
  next
    case (Inr x)
    have "maybeSingle (filter (\<lambda>r. u_id r = uid) (users (w\<lparr>requests := requests w @ [SelectUser]\<rparr>)))
          = Inr x" using Inr by simp
    then show ?thesis using None e
      by (simp add: updateStreak_def io_bind_def request_def Let_def)
  qed
qed

text \<open>
  Claim C3 fails on the code. In the sample save every write of the check-in is answered
  and the update of the streak is rejected: the new trigger entry is persisted, but the
  failure is shown to the user, the draft is still in the cache, the form still holds its
  values and \<open>saved\<close> is not set.
\<close>

theorem handleSave_streak_failure_counterexample:
  "o_alert (handleSave ex_streak_down ex_edited ex_drafted)
     = Some (''Save failed'', ''streak unavailable'')
   \<and> asyncStorage (o_world (handleSave ex_streak_down ex_edited ex_drafted))
       (draftKey (Some ''u1'') ''2025-03-01'' Daily) = Some (Json (draftOf ex_env ex_edited))
   \<and> \<not> saved (o_screen (handleSave ex_streak_down ex_edited ex_drafted))
   \<and> overallSeverity (o_screen (handleSave ex_streak_down ex_edited ex_drafted)) = Some 8
   \<and> daily_log_triggers (o_world (handleSave ex_streak_down ex_edited ex_drafted))
       = [\<lparr>dlt_daily_log_id = ''log-1'', dlt_trigger_id = ''t2'', dlt_value = Some 0,
           dlt_value_text = Some ''4 hours''\<rparr>]"
  by (simp add: ex_save_defs ex_streak_down_def)


text \<open>
  Claim C3, amended. If every persisted write of a save succeeds but the streak update
  fails (either of its two calls is rejected), the writes of the save are not rolled back:
  the check-in tables are as the same save leaves them when nothing is rejected. The
  failure of the streak update is thrown into the \<^verbatim>\<open>catch\<close> of the save like any other: it
  is logged and shown to the user as a failed save, the cache is untouched (the draft is
  not deleted), the form is not reset and \<open>saved\<close> is not set.
\<close>

theorem handleSave_streak_failure:
  assumes u: "userId s = Some uid"
    and others: "\<forall>c. c \<noteq> SelectUser \<and> c \<noteq> UpdateUser \<longrightarrow> faults E c = None"
    and streak: "faults E SelectUser \<noteq> None \<or> faults E UpdateUser \<noteq> None"
  shows "checkinTables (o_world (handleSave E s w))
           = checkinTables (o_world (handleSave (noFaults E) s w))
       \<and> o_alert (handleSave E s w) \<noteq> None
       \<and> o_console (handleSave E s w) = [''[UnifiedLogScreen] save failed'']
       \<and> asyncStorage (o_world (handleSave E s w)) = asyncStorage w
       \<and> o_screen (handleSave E s w) = s\<lparr>loading := False\<rparr>"
proof -
  let ?rest = "\<lambda>E. io_bind (updateStreak E uid None) (\<lambda>_. clearDraft E s)"
  let ?next = "\<lambda>E (_ :: unit). io_bind (updateStreak E uid None) (\<lambda>_. clearDraft E s)"
  have u0: "userId s = Some uid" by (rule u)
  obtain r1 w1 where p: "persist E uid s w = (r1, w1)" by (cases "persist E uid s w")
  then have p0: "persist (noFaults E) uid s w = (r1, w1)"
    by (simp add: persist_noFaults [OF others, symmetric])
  have c1: "asyncStorage w1 = asyncStorage w" using persist_keeps_cache p by (rule keepsD)
  have body: "(if mode s = Daily then saveDaily E uid s else saveMoment E uid s) w
              = io_bind (persist E uid s) (?next E) w" for E
    by (simp only: body_persist)
  show ?thesis
  proof (cases r1)
    case (Inl e)
    have "(if mode s = Daily then saveDaily E uid s else saveMoment E uid s) w = (Inl e, w1)"
      unfolding body using p Inl by (simp add: io_bind_def)
    moreover have "(if mode s = Daily then saveDaily (noFaults E) uid s
                    else saveMoment (noFaults E) uid s) w = (Inl e, w1)"
      unfolding body using p0 Inl by (simp add: io_bind_def)
    ultimately show ?thesis using u c1 by (simp add: handleSave_def)
  next
    case (Inr a)
    from updateStreak_fails [OF streak] obtain e w2 where
      st: "updateStreak E uid None w1 = (Inl e, w2)" by blast
    have t2: "checkinTables w2 = checkinTables w1"
      using updateStreak_keeps_tables st by (rule keepsD)
    have c2: "asyncStorage w2 = asyncStorage w1"
      using updateStreak_keeps_cache st by (rule keepsD)
    have run: "(if mode s = Daily then saveDaily E uid s else saveMoment E uid s) w = (Inl e, w2)"
      unfolding body using p Inr st by (simp add: io_bind_def)
    obtain r0 w0 where rest0: "?rest (noFaults E) w1 = (r0, w0)"
      by (cases "?rest (noFaults E) w1")
    have "keeps checkinTables (?rest (noFaults E))"
      by (intro keeps_bind updateStreak_keeps_tables clearDraft_keeps_tables)
    then have t0: "checkinTables w0 = checkinTables w1" using rest0 by (rule keepsD)
    have run0: "(if mode s = Daily then saveDaily (noFaults E) uid s
                 else saveMoment (noFaults E) uid s) w = (r0, w0)"
      unfolding body using p0 Inr rest0 by (simp add: io_bind_def)
    have "o_world (handleSave (noFaults E) s w) = w0"
      using u run0 by (simp add: handleSave_def split: sum.splits)
    then show ?thesis using u run t0 t2 c1 c2 by (simp add: handleSave_def)
  qed
qed

theorem handleSave_streak_failure_witness:
  "userId ex_edited = Some ''u1''
   \<and> map (faults ex_streak_down)
        [SelectDailyLog, UpdateDailyLog, InsertDailyLog, DeleteDailyLogConditions,
         DeleteDailyLogTriggers, InsertDailyLogConditions, InsertDailyLogTriggers,
         InsertMomentLog, InsertMomentLogConditions, InsertMomentLogTriggers, RemoveDraft,
         SelectUser]
       = [None, None, None, None, None, None, None, None, None, None, None, None]
   \<and> faults ex_streak_down UpdateUser = Some ''streak unavailable''
   \<and> checkinTables (o_world (handleSave ex_streak_down ex_edited ex_drafted))
     = checkinTables (o_world (handleSave (noFaults ex_streak_down) ex_edited ex_drafted))
   \<and> o_alert (handleSave (noFaults ex_streak_down) ex_edited ex_drafted) = None
   \<and> o_alert (handleSave ex_streak_down ex_edited ex_drafted) \<noteq> None
   \<and> o_screen (handleSave ex_streak_down ex_edited ex_drafted) = ex_edited"
  using handleSave_streak_failure [where s = ex_edited and uid = "''u1''" and w = ex_drafted
      and E = ex_streak_down]
  by (simp add: ex_save_defs ex_streak_down_def noFaults_def)


lemma io_bind_InrE:
  assumes "io_bind m k w = (Inr b, w')"
  obtains a w1 where "m w = (Inr a, w1)" "k a w1 = (Inr b, w')"
  using assms by (auto simp: io_bind_def split: prod.splits sum.splits)

lemma request_InrE:
  assumes "request E c op w = (Inr a, w')"
  obtains "faults E c = None" "op (w\<lparr>requests := requests w @ [c]\<rparr>) = (Inr a, w')"
  using assms by (auto simp: request_def Let_def split: option.splits)

lemma io_return_InrE:
  assumes "io_return a w = (Inr b, w')"
  obtains "b = a" "w' = w"
  using assms by (auto simp: io_return_def)

lemma persistDaily_existing:
  assumes ex: "filter (\<lambda>r. dl_user_id r = uid \<and> dl_date r = today s) (daily_logs w) = [ex]"
    and run: "persistDaily E uid s w = (Inr x, w1)"
  shows "daily_logs w1 = map (updatedDailyLog E (dl_id ex) s) (daily_logs w)"
    and "daily_log_conditions w1 =
           daily_log_conditions w
             @ map (dailyConditionRow (dl_id ex) s) (selectedConditions s)"
    and "daily_log_triggers w1 =
           filter (\<lambda>r. dlt_daily_log_id r \<noteq> dl_id ex) (daily_log_triggers w)
             @ map (dailyTriggerRow (dl_id ex)) (triggerEntries (triggerValues s))"
    and "requests w1 = requests w
           @ [SelectDailyLog, UpdateDailyLog, DeleteDailyLogConditions, DeleteDailyLogTriggers]
           @ (if selectedConditions s \<noteq> [] then [InsertDailyLogConditions] else [])
           @ (if triggerEntries (triggerValues s) \<noteq> [] then [InsertDailyLogTriggers] else [])"
proof -
  from run obtain a wa where
    sel: "selectDailyLog E uid (today s) w = (Inr a, wa)"
    and rest: "io_bind
       (case a of
          Some ex \<Rightarrow>
            io_bind (updateDailyLog E (dl_id ex) s) (\<lambda>_.
            io_bind (deleteDailyLogConditions E (dl_id ex)) (\<lambda>_.
            io_bind (deleteDailyLogTriggers E (dl_id ex)) (\<lambda>_.
            io_return (dl_id ex))))
        | None \<Rightarrow>
            io_bind (insertDailyLog E uid s) (\<lambda>created. io_return (dl_id created)))
       (\<lambda>dailyLogId.
     io_bind
       (if length (selectedConditions s) > 0
        then insertDailyLogConditions E dailyLogId s else io_return ()) (\<lambda>_.
       (if length (triggerEntries (triggerValues s)) > 0
        then insertDailyLogTriggers E dailyLogId (triggerEntries (triggerValues s))
        else io_return ()))) wa = (Inr x, w1)"
    unfolding persistDaily_def by (erule io_bind_InrE)
  from sel ex have a: "a = Some ex" and wa: "wa = w\<lparr>requests := requests w @ [SelectDailyLog]\<rparr>"
    unfolding selectDailyLog_def
    by (auto elim!: request_InrE simp: maybeSingle_def)
  from rest [unfolded a option.case] obtain i wb where
    parent: "io_bind (updateDailyLog E (dl_id ex) s) (\<lambda>_.
            io_bind (deleteDailyLogConditions E (dl_id ex)) (\<lambda>_.
            io_bind (deleteDailyLogTriggers E (dl_id ex)) (\<lambda>_.
            io_return (dl_id ex)))) wa = (Inr i, wb)"
    and children: "io_bind
       (if length (selectedConditions s) > 0
        then insertDailyLogConditions E i s else io_return ()) (\<lambda>_.
       (if length (triggerEntries (triggerValues s)) > 0
        then insertDailyLogTriggers E i (triggerEntries (triggerValues s))
        else io_return ())) wb = (Inr x, w1)"
    unfolding a option.case by (rule io_bind_InrE)
  from parent have i: "i = dl_id ex"
    and wb: "daily_logs wb = map (updatedDailyLog E (dl_id ex) s) (daily_logs w)"
      "daily_log_conditions wb = daily_log_conditions w"
      "daily_log_triggers wb = filter (\<lambda>r. dlt_daily_log_id r \<noteq> dl_id ex) (daily_log_triggers w)"
      "requests wb = requests w
         @ [SelectDailyLog, UpdateDailyLog, DeleteDailyLogConditions, DeleteDailyLogTriggers]"
    unfolding updateDailyLog_def deleteDailyLogConditions_def deleteDailyLogTriggers_def wa
    by (auto elim!: io_bind_InrE request_InrE io_return_InrE)
  from children obtain y wc where
    cond: "(if length (selectedConditions s) > 0
        then insertDailyLogConditions E i s else io_return ()) wb = (Inr y, wc)"
    and trig: "(if length (triggerEntries (triggerValues s)) > 0
        then insertDailyLogTriggers E i (triggerEntries (triggerValues s))
        else io_return ()) wc = (Inr x, w1)"
    by (rule io_bind_InrE)
  from cond have wc: "daily_logs wc = daily_logs wb"
    "daily_log_conditions wc = daily_log_conditions wb @ map (dailyConditionRow i s) (selectedConditions s)"
    "daily_log_triggers wc = daily_log_triggers wb"
    "requests wc = requests wb
       @ (if selectedConditions s \<noteq> [] then [InsertDailyLogConditions] else [])"
    unfolding insertDailyLogConditions_def
    by (auto elim!: request_InrE io_return_InrE split: if_splits)
  from trig have w1: "daily_logs w1 = daily_logs wc"
    "daily_log_conditions w1 = daily_log_conditions wc"
    "daily_log_triggers w1 = daily_log_triggers wc @ map (dailyTriggerRow i) (triggerEntries (triggerValues s))"
    "requests w1 = requests wc
       @ (if triggerEntries (triggerValues s) \<noteq> [] then [InsertDailyLogTriggers] else [])"
    unfolding insertDailyLogTriggers_def
    by (auto elim!: request_InrE io_return_InrE split: if_splits)
  show "daily_logs w1 = map (updatedDailyLog E (dl_id ex) s) (daily_logs w)"
    by (simp add: w1 wc wb)
  show "daily_log_conditions w1 =
           daily_log_conditions w
             @ map (dailyConditionRow (dl_id ex) s) (selectedConditions s)"
    by (simp add: w1 wc wb i)
  show "daily_log_triggers w1 =
           filter (\<lambda>r. dlt_daily_log_id r \<noteq> dl_id ex) (daily_log_triggers w)
             @ map (dailyTriggerRow (dl_id ex)) (triggerEntries (triggerValues s))"
    by (simp add: w1 wc wb i)
  show "requests w1 = requests w
           @ [SelectDailyLog, UpdateDailyLog, DeleteDailyLogConditions, DeleteDailyLogTriggers]
           @ (if selectedConditions s \<noteq> [] then [InsertDailyLogConditions] else [])
           @ (if triggerEntries (triggerValues s) \<noteq> [] then [InsertDailyLogTriggers] else [])"
    by (simp add: w1 wc wb)
qed

lemma streak_and_clear_requests:
  assumes u: "userId s = Some uid"
    and run: "io_bind (updateStreak E uid d) (\<lambda>_. clearDraft E s) w1 = (Inr x, w')"
  shows "requests w' = requests w1 @ [SelectUser, UpdateUser, RemoveDraft]"
proof -
  from run obtain y w2 where st: "updateStreak E uid d w1 = (Inr y, w2)"
    and cl: "clearDraft E s w2 = (Inr x, w')"
    by (rule io_bind_InrE)
  from st have "requests w2 = requests w1 @ [SelectUser, UpdateUser]"
    unfolding updateStreak_def Let_def
    by (auto elim!: io_bind_InrE request_InrE io_return_InrE)
  moreover from cl u have "requests w' = requests w2 @ [RemoveDraft]"
    unfolding clearDraft_def by (auto elim!: request_InrE)
  ultimately show ?thesis by simp
qed

lemma handleSave_daily_success:
  assumes u: "userId s = Some uid" and d: "mode s = Daily"
    and ex: "filter (\<lambda>r. dl_user_id r = uid \<and> dl_date r = today s) (daily_logs w) = [ex]"
    and ok: "o_alert (handleSave E s w) = None"
  shows "daily_logs (o_world (handleSave E s w))
           = map (updatedDailyLog E (dl_id ex) s) (daily_logs w)"
    and "daily_log_conditions (o_world (handleSave E s w)) =
           daily_log_conditions w
             @ map (dailyConditionRow (dl_id ex) s) (selectedConditions s)"
    and "daily_log_triggers (o_world (handleSave E s w)) =
           filter (\<lambda>r. dlt_daily_log_id r \<noteq> dl_id ex) (daily_log_triggers w)
             @ map (dailyTriggerRow (dl_id ex)) (triggerEntries (triggerValues s))"
    and "issued w (o_world (handleSave E s w)) =
           [SelectDailyLog, UpdateDailyLog, DeleteDailyLogConditions, DeleteDailyLogTriggers]
           @ (if selectedConditions s \<noteq> [] then [InsertDailyLogConditions] else [])
           @ (if triggerEntries (triggerValues s) \<noteq> [] then [InsertDailyLogTriggers] else [])
           @ [SelectUser, UpdateUser, RemoveDraft]"
proof -
  let ?rest = "\<lambda>_ :: unit. io_bind (updateStreak E uid None) (\<lambda>_. clearDraft E s)"
  obtain r w' where run: "saveDaily E uid s w = (r, w')" by (cases "saveDaily E uid s w")
  with u d ok obtain x where r: "r = Inr x"
    by (cases r) (simp_all add: handleSave_def)
  from run r have "io_bind (persistDaily E uid s) ?rest w = (Inr x, w')"
    by (simp add: saveDaily_persist)
  then obtain y w1 where p: "persistDaily E uid s w = (Inr y, w1)"
    and rest: "?rest y w1 = (Inr x, w')"
    by (rule io_bind_InrE)
  have "keeps checkinTables (?rest y)"
    by (intro keeps_bind updateStreak_keeps_tables clearDraft_keeps_tables)
  then have "checkinTables w' = checkinTables w1" using rest by (rule keepsD)
  then have t: "daily_logs w' = daily_logs w1" "daily_log_conditions w' = daily_log_conditions w1"
    "daily_log_triggers w' = daily_log_triggers w1"
    by (simp_all add: checkinTables_def)
  have w': "o_world (handleSave E s w) = w'"
    using u d run r by (simp add: handleSave_def)
  note persistDaily_existing [OF ex p]
  then show "daily_logs (o_world (handleSave E s w))
           = map (updatedDailyLog E (dl_id ex) s) (daily_logs w)"
    and "daily_log_conditions (o_world (handleSave E s w)) =
           daily_log_conditions w
             @ map (dailyConditionRow (dl_id ex) s) (selectedConditions s)"
    and "daily_log_triggers (o_world (handleSave E s w)) =
           filter (\<lambda>r. dlt_daily_log_id r \<noteq> dl_id ex) (daily_log_triggers w)
             @ map (dailyTriggerRow (dl_id ex)) (triggerEntries (triggerValues s))"
    by (simp_all add: w' t)
  from streak_and_clear_requests [OF u rest] persistDaily_existing(4) [OF ex p]
  show "issued w (o_world (handleSave E s w)) =
           [SelectDailyLog, UpdateDailyLog, DeleteDailyLogConditions, DeleteDailyLogTriggers]
           @ (if selectedConditions s \<noteq> [] then [InsertDailyLogConditions] else [])
           @ (if triggerEntries (triggerValues s) \<noteq> [] then [InsertDailyLogTriggers] else [])
           @ [SelectUser, UpdateUser, RemoveDraft]"
    by (simp add: w' issued_def)
qed

lemma filter_updated:
  "filter (\<lambda>r. dl_user_id r = uid \<and> dl_date r = day) (map (updatedDailyLog E i s) rows)
     = map (updatedDailyLog E i s) (filter (\<lambda>r. dl_user_id r = uid \<and> dl_date r = day) rows)"
  by (induction rows) (auto simp: updatedDailyLog_def)

lemma children_of_log:
  "filter (\<lambda>r. dlt_daily_log_id r = i) (map (dailyTriggerRow i) new) = map (dailyTriggerRow i) new"
  "filter (\<lambda>r. dlt_daily_log_id r \<noteq> i) (map (dailyTriggerRow i) new) = []"
  by (simp_all add: filter_map o_def dailyTriggerRow_def)

lemma handleSave_daily_prefix:
  assumes u: "userId s = Some uid" and d: "mode s = Daily"
    and ex: "filter (\<lambda>r. dl_user_id r = uid \<and> dl_date r = today s) (daily_logs w) = [ex]"
    and one_user: "length (filter (\<lambda>r. u_id r = uid) (users w)) \<le> 1"
  shows "prefix (issued w (o_world (handleSave E s w)))
           ([SelectDailyLog, UpdateDailyLog, DeleteDailyLogConditions, DeleteDailyLogTriggers]
            @ childrenPlan s @ [SelectUser, UpdateUser, RemoveDraft])"
proof -
  let ?body = "io_bind (persist E uid s)
                 (\<lambda>_. io_bind (updateStreak E uid None) (\<lambda>_. clearDraft E s))"
  have one_log:
    "length (filter (\<lambda>r. dl_user_id r = uid \<and> dl_date r = today s) (daily_logs w)) \<le> 1"
    by (simp add: ex)
  obtain r w' where run: "?body w = (r, w')" by (cases "?body w")
  from body_follows [OF u one_log one_user, of E] run obtain cs where
    cs: "requests w' = requests w @ cs" and pre: "prefix cs (savePlan uid s w)"
    by (auto simp: follows_def)
  have "o_world (handleSave E s w) = w'"
    using run u by (simp add: handleSave_def body_persist split: sum.splits)
  then have "issued w (o_world (handleSave E s w)) = cs" by (simp add: issued_def cs)
  moreover have "savePlan uid s w =
      [SelectDailyLog, UpdateDailyLog, DeleteDailyLogConditions, DeleteDailyLogTriggers]
       @ childrenPlan s @ [SelectUser, UpdateUser, RemoveDraft]"
    by (simp add: savePlan_def persistPlan_def d ex)
  ultimately show ?thesis using pre by simp
qed

text \<open>
  Two successive daily saves that succeed, for a signed-in user with one persisted daily
  log for the day: the log's trigger rows are those of the second form and the trigger
  rows of other logs are as they were, while the table of condition rows is the one
  before the saves followed by the rows of the first form and by those of the second.
\<close>

lemma handleSave_daily_twice:
  assumes ua: "userId s = Some uid" and da: "mode s = Daily"
    and ub: "userId s' = Some uid" and db: "mode s' = Daily" and same_day: "today s' = today s"
    and ex: "filter (\<lambda>r. dl_user_id r = uid \<and> dl_date r = today s) (daily_logs w) = [ex]"
    and oka: "o_alert (handleSave E s w) = None"
    and okb: "o_alert (handleSave E' s' (o_world (handleSave E s w))) = None"
  shows "filter (\<lambda>r. dlt_daily_log_id r = dl_id ex)
           (daily_log_triggers (o_world (handleSave E' s' (o_world (handleSave E s w)))))
         = map (dailyTriggerRow (dl_id ex)) (triggerEntries (triggerValues s'))"
    and "filter (\<lambda>r. dlt_daily_log_id r \<noteq> dl_id ex)
           (daily_log_triggers (o_world (handleSave E' s' (o_world (handleSave E s w)))))
         = filter (\<lambda>r. dlt_daily_log_id r \<noteq> dl_id ex) (daily_log_triggers w)"
    and "daily_log_conditions (o_world (handleSave E' s' (o_world (handleSave E s w))))
         = daily_log_conditions w
           @ map (dailyConditionRow (dl_id ex) s) (selectedConditions s)
           @ map (dailyConditionRow (dl_id ex) s') (selectedConditions s')"
proof -
  note first = handleSave_daily_success [OF ua da ex oka]
  let ?ex' = "updatedDailyLog E (dl_id ex) s ex"
  have id': "dl_id ?ex' = dl_id ex" by (simp add: updatedDailyLog_def)
  have ex': "filter (\<lambda>r. dl_user_id r = uid \<and> dl_date r = today s')
               (daily_logs (o_world (handleSave E s w))) = [?ex']"
    by (simp add: first(1) filter_updated same_day ex)
  note second = handleSave_daily_success [OF ub db ex' okb, unfolded id']
  show "filter (\<lambda>r. dlt_daily_log_id r = dl_id ex)
           (daily_log_triggers (o_world (handleSave E' s' (o_world (handleSave E s w)))))
         = map (dailyTriggerRow (dl_id ex)) (triggerEntries (triggerValues s'))"
    by (simp add: second(3) children_of_log)
  show "filter (\<lambda>r. dlt_daily_log_id r \<noteq> dl_id ex)
           (daily_log_triggers (o_world (handleSave E' s' (o_world (handleSave E s w)))))
         = filter (\<lambda>r. dlt_daily_log_id r \<noteq> dl_id ex) (daily_log_triggers w)"
    by (simp add: first(3) second(3) children_of_log)
  show "daily_log_conditions (o_world (handleSave E' s' (o_world (handleSave E s w))))
         = daily_log_conditions w
           @ map (dailyConditionRow (dl_id ex) s) (selectedConditions s)
           @ map (dailyConditionRow (dl_id ex) s') (selectedConditions s')"
    by (simp add: first(2) second(2))
qed

text \<open>
  Claim C7. A daily save against the persisted log of the day issues the deletion of the
  log's conditions and the deletion of its triggers before the insertions, and the log's
  trigger entries are replaced; the condition entries persisted before are not deleted.
  User \<open>u1\<close> has the log \<open>log-1\<close> for the day, with the condition \<open>c1\<close> and the trigger \<open>t1\<close>.
  A save of a form with the condition \<open>c2\<close> and the trigger \<open>t2\<close> succeeds, having issued the
  two deletions before the two insertions, and leaves the log with the trigger \<open>t2\<close> only
  but with the conditions \<open>c1\<close> and \<open>c2\<close>. A second save, of a form with the condition \<open>c3\<close>
  and the trigger \<open>t3\<close>, succeeds and leaves the log with the trigger \<open>t3\<close> only but with
  the conditions \<open>c1\<close>, \<open>c2\<close> and \<open>c3\<close>: the condition entries of the first save and those
  persisted before it accumulate.
\<close>

theorem handleSave_daily_conditions_accumulate:
  "daily_log_conditions ex_drafted
     = [\<lparr>dlc_daily_log_id = ''log-1'', dlc_user_condition_id = ''c1'', dlc_severity = Some 6\<rparr>]
   \<and> daily_log_triggers ex_drafted
     = [\<lparr>dlt_daily_log_id = ''log-1'', dlt_trigger_id = ''t1'', dlt_value = Some 1,
         dlt_value_text = Some ''Yes''\<rparr>]
   \<and> o_alert (handleSave ex_env ex_edited ex_drafted) = None
   \<and> issued ex_drafted (o_world (handleSave ex_env ex_edited ex_drafted))
     = [SelectDailyLog, UpdateDailyLog, DeleteDailyLogConditions, DeleteDailyLogTriggers,
        InsertDailyLogConditions, InsertDailyLogTriggers, SelectUser, UpdateUser, RemoveDraft]
   \<and> daily_log_conditions (o_world (handleSave ex_env ex_edited ex_drafted))
     = [\<lparr>dlc_daily_log_id = ''log-1'', dlc_user_condition_id = ''c1'', dlc_severity = Some 6\<rparr>,
        \<lparr>dlc_daily_log_id = ''log-1'', dlc_user_condition_id = ''c2'', dlc_severity = Some 6\<rparr>]
   \<and> daily_log_triggers (o_world (handleSave ex_env ex_edited ex_drafted))
     = [\<lparr>dlt_daily_log_id = ''log-1'', dlt_trigger_id = ''t2'', dlt_value = Some 0,
         dlt_value_text = Some ''4 hours''\<rparr>]
   \<and> o_alert (handleSave ex_env ex_second (o_world (handleSave ex_env ex_edited ex_drafted)))
       = None
   \<and> daily_log_conditions
       (o_world (handleSave ex_env ex_second (o_world (handleSave ex_env ex_edited ex_drafted))))
     = [\<lparr>dlc_daily_log_id = ''log-1'', dlc_user_condition_id = ''c1'', dlc_severity = Some 6\<rparr>,
        \<lparr>dlc_daily_log_id = ''log-1'', dlc_user_condition_id = ''c2'', dlc_severity = Some 6\<rparr>,
        \<lparr>dlc_daily_log_id = ''log-1'', dlc_user_condition_id = ''c3'', dlc_severity = Some 4\<rparr>]
   \<and> daily_log_triggers
       (o_world (handleSave ex_env ex_second (o_world (handleSave ex_env ex_edited ex_drafted))))
     = [\<lparr>dlt_daily_log_id = ''log-1'', dlt_trigger_id = ''t3'', dlt_value = Some 3,
         dlt_value_text = None\<rparr>]"
  by (simp add: ex_save_defs ex_second_def)

end
